theory Spec2Isabelle
  imports Main "HOL-Library.Multiset"
begin

section \<open>Data model (app/models.py)\<close>

text \<open>
  The tables of \<^verbatim>\<open>app/models.py\<close>, one record per row type. A \<^verbatim>\<open>datetime\<close> or
  \<^verbatim>\<open>date\<close> is a point on the integer time line. A stored row always carries its
  primary key, so the key is an \<open>int\<close> and not an optional one. Field names are
  prefixed by the table, since record fields share one name space.
\<close>

type_synonym timestamp = int

datatype MessageStatus = PENDING | ACCEPTED | DECLINED

datatype ConversationStatus = ACTIVE | ARCHIVED | BLOCKED

record User =
  u_id :: int
  u_username :: string
  u_email :: string
  u_password_hash :: string
  u_display_name :: string
  u_is_active :: bool
  u_created_at :: timestamp
  u_last_login :: "timestamp option"

record DailyEntry =
  e_id :: int
  e_author_id :: int
  e_wikipedia_image_id :: int
  e_entry_date :: timestamp
  e_reflection_text :: string
  e_is_shared :: bool
  e_created_at :: timestamp
  e_updated_at :: timestamp

record ReflectionLike =
  l_id :: int
  l_user_id :: int
  l_daily_entry_id :: int
  l_created_at :: timestamp

record ContactRequest =
  cr_id :: int
  cr_sender_id :: int
  cr_recipient_id :: int
  cr_daily_entry_id :: int
  cr_message :: string
  cr_status :: MessageStatus
  cr_created_at :: timestamp
  cr_responded_at :: "timestamp option"

record Conversation =
  cv_id :: int
  cv_user1_id :: int
  cv_user2_id :: int
  cv_status :: ConversationStatus
  cv_created_at :: timestamp
  cv_last_message_at :: "timestamp option"

record DirectMessage =
  dm_id :: int
  dm_conversation_id :: int
  dm_sender_id :: int
  dm_message_text :: string
  dm_created_at :: timestamp
  dm_is_read :: bool

text \<open>The request and response schemas (\<^verbatim>\<open>table=False\<close>).\<close>

record ContactRequestCreate =
  rc_recipient_id :: int
  rc_daily_entry_id :: int
  rc_message :: string

record DirectMessageCreate =
  mc_conversation_id :: int
  mc_message_text :: string

text \<open>
  \<^verbatim>\<open>created_at\<close> and \<^verbatim>\<open>last_message_at\<close> of the responses are the ISO rendering
  of a \<^verbatim>\<open>datetime\<close>; the model keeps the time itself.
\<close>

record DirectMessageResponse =
  mr_id :: int
  mr_sender_display_name :: string
  mr_message_text :: string
  mr_created_at :: timestamp
  mr_is_read :: bool

record ConversationResponse =
  cvr_id :: int
  cvr_other_user_display_name :: string
  cvr_last_message_at :: "timestamp option"
  cvr_unread_count :: int

text \<open>
  The database behind \<^verbatim>\<open>get_session()\<close>: every table is the list of its rows in
  insertion order. Each service method runs in one session and commits before it
  returns, so a method is a function from the database to its result and the
  database after the commit. The user and entry tables belong to other services; the
  methods here only read them. Keeping the keys that \<^verbatim>\<open>models.py\<close> declares
  (primary keys unique, foreign keys resolving) is the store's work and not the
  service's: a theorem that needs a key to be unique or to resolve says so in its
  hypotheses.
\<close>

record db =
  users :: "User list"
  daily_entries :: "DailyEntry list"
  reflection_likes :: "ReflectionLike list"
  contact_requests :: "ContactRequest list"
  conversations :: "Conversation list"
  direct_messages :: "DirectMessage list"

text \<open>
  The primary key of an inserted row is assigned by the store on flush. It is modelled
  as one more than the largest key of the table (1 for an empty table).
\<close>

definition next_id :: "int list \<Rightarrow> int" where
  "next_id ids = foldr max ids 0 + 1"

text \<open>\<^verbatim>\<open>session.get(Model, key)\<close>: the row with that primary key, or \<^verbatim>\<open>None\<close>.\<close>

definition get_user :: "db \<Rightarrow> int \<Rightarrow> User option" where
  "get_user s k = find (\<lambda>u. u_id u = k) (users s)"

definition get_entry :: "db \<Rightarrow> int \<Rightarrow> DailyEntry option" where
  "get_entry s k = find (\<lambda>e. e_id e = k) (daily_entries s)"

definition get_request :: "db \<Rightarrow> int \<Rightarrow> ContactRequest option" where
  "get_request s k = find (\<lambda>r. cr_id r = k) (contact_requests s)"

definition get_conversation :: "db \<Rightarrow> int \<Rightarrow> Conversation option" where
  "get_conversation s k = find (\<lambda>c. cv_id c = k) (conversations s)"

section \<open>SocialService (app/services/social_service.py)\<close>

text \<open>
  Every call of \<^verbatim>\<open>datetime.utcnow()\<close>, also the one in a column's
  \<^verbatim>\<open>default_factory\<close>, is a reading of the clock and an argument of the model.
\<close>

subsection \<open>Likes\<close>

definition find_like :: "db \<Rightarrow> int \<Rightarrow> int \<Rightarrow> ReflectionLike option" where
  "find_like s user_id entry_id =
     find (\<lambda>l. l_user_id l = user_id \<and> l_daily_entry_id l = entry_id) (reflection_likes s)"

definition toggle_like :: "db \<Rightarrow> int \<Rightarrow> int \<Rightarrow> timestamp \<Rightarrow> bool \<times> db" where
  "toggle_like s user_id entry_id now =
     (case get_entry s entry_id of
        None \<Rightarrow> (False, s)
      | Some entry \<Rightarrow>
          if \<not> e_is_shared entry \<or> e_author_id entry = user_id then (False, s)
          else
            (case find_like s user_id entry_id of
               Some existing_like \<Rightarrow>
                 (False,
                  s\<lparr>reflection_likes :=
                      filter (\<lambda>l. l_id l \<noteq> l_id existing_like) (reflection_likes s)\<rparr>)
             | None \<Rightarrow>
                 (True,
                  s\<lparr>reflection_likes := reflection_likes s @
                      [\<lparr>l_id = next_id (map l_id (reflection_likes s)),
                        l_user_id = user_id, l_daily_entry_id = entry_id,
                        l_created_at = now\<rparr>]\<rparr>)))"

definition get_entry_likes_count :: "db \<Rightarrow> int \<Rightarrow> int" where
  "get_entry_likes_count s entry_id =
     int (length (filter (\<lambda>l. l_daily_entry_id l = entry_id) (reflection_likes s)))"

definition user_has_liked_entry :: "db \<Rightarrow> int \<Rightarrow> int \<Rightarrow> bool" where
  "user_has_liked_entry s user_id entry_id = (find_like s user_id entry_id \<noteq> None)"

subsection \<open>Contact requests\<close>

definition find_request :: "db \<Rightarrow> int \<Rightarrow> int \<Rightarrow> int \<Rightarrow> ContactRequest option" where
  "find_request s sender_id recipient_id entry_id =
     find (\<lambda>r. cr_sender_id r = sender_id \<and> cr_recipient_id r = recipient_id
                \<and> cr_daily_entry_id r = entry_id) (contact_requests s)"

definition send_contact_request ::
  "db \<Rightarrow> int \<Rightarrow> ContactRequestCreate \<Rightarrow> timestamp \<Rightarrow> ContactRequest option \<times> db" where
  "send_contact_request s sender_id request_data now =
     (case get_entry s (rc_daily_entry_id request_data) of
        None \<Rightarrow> (None, s)
      | Some entry \<Rightarrow>
          if \<not> e_is_shared entry \<or> e_author_id entry \<noteq> rc_recipient_id request_data
          then (None, s)
          else if \<not> user_has_liked_entry s sender_id (rc_daily_entry_id request_data)
          then (None, s)
          else
            (case find_request s sender_id (rc_recipient_id request_data)
                    (rc_daily_entry_id request_data) of
               Some existing_request \<Rightarrow> (Some existing_request, s)
             | None \<Rightarrow>
                 (let contact_request =
                        \<lparr>cr_id = next_id (map cr_id (contact_requests s)),
                         cr_sender_id = sender_id,
                         cr_recipient_id = rc_recipient_id request_data,
                         cr_daily_entry_id = rc_daily_entry_id request_data,
                         cr_message = rc_message request_data,
                         cr_status = PENDING,
                         cr_created_at = now,
                         cr_responded_at = None\<rparr>
                  in (Some contact_request,
                      s\<lparr>contact_requests := contact_requests s @ [contact_request]\<rparr>))))"

subsection \<open>Conversations\<close>

text \<open>
  \<^verbatim>\<open>_create_conversation\<close> (an Isabelle name cannot start with an underscore). It
  works inside the caller's session and always returns a conversation.
\<close>

definition create_conversation ::
  "db \<Rightarrow> int \<Rightarrow> int \<Rightarrow> timestamp \<Rightarrow> Conversation \<times> db" where
  "create_conversation s user1_id user2_id now =
     (let (u1, u2) = (if user1_id > user2_id then (user2_id, user1_id)
                      else (user1_id, user2_id))
      in case find (\<lambda>c. cv_user1_id c = u1 \<and> cv_user2_id c = u2) (conversations s) of
           Some existing \<Rightarrow> (existing, s)
         | None \<Rightarrow>
             (let conversation =
                    \<lparr>cv_id = next_id (map cv_id (conversations s)),
                     cv_user1_id = u1, cv_user2_id = u2, cv_status = ACTIVE,
                     cv_created_at = now, cv_last_message_at = None\<rparr>
              in (conversation, s\<lparr>conversations := conversations s @ [conversation]\<rparr>)))"

text \<open>
  \<^verbatim>\<open>respond_to_contact_request\<close> reads the clock for \<^verbatim>\<open>responded_at\<close> (\<open>now\<close>) and,
  when a conversation row is built, for its \<^verbatim>\<open>created_at\<close> (\<open>conv_now\<close>). The source
  does not look at the request's current status.
\<close>

definition respond_to_contact_request ::
  "db \<Rightarrow> int \<Rightarrow> int \<Rightarrow> bool \<Rightarrow> timestamp \<Rightarrow> timestamp \<Rightarrow> ContactRequest option \<times> db" where
  "respond_to_contact_request s request_id recipient_id accept now conv_now =
     (case get_request s request_id of
        None \<Rightarrow> (None, s)
      | Some request \<Rightarrow>
          if cr_recipient_id request \<noteq> recipient_id then (None, s)
          else
            (let request' = request\<lparr>cr_status := (if accept then ACCEPTED else DECLINED),
                                    cr_responded_at := Some now\<rparr>;
                 s1 = s\<lparr>contact_requests :=
                          map (\<lambda>r. if cr_id r = request_id
                                    then r\<lparr>cr_status := (if accept then ACCEPTED else DECLINED),
                                           cr_responded_at := Some now\<rparr>
                                    else r) (contact_requests s)\<rparr>;
                 s2 = (if accept
                       then snd (create_conversation s1 (cr_sender_id request) recipient_id conv_now)
                       else s1)
             in (Some request', s2)))"

definition unread_count :: "db \<Rightarrow> int \<Rightarrow> int \<Rightarrow> int" where
  "unread_count s conv_id user_id =
     int (length (filter (\<lambda>m. dm_conversation_id m = conv_id \<and> dm_sender_id m \<noteq> user_id
                               \<and> dm_is_read m = False) (direct_messages s)))"

definition other_user_id :: "Conversation \<Rightarrow> int \<Rightarrow> int" where
  "other_user_id conv user_id =
     (if cv_user1_id conv = user_id then cv_user2_id conv else cv_user1_id conv)"

text \<open>The loop of \<^verbatim>\<open>get_user_conversations\<close> over the selected rows.\<close>

fun conversation_results :: "db \<Rightarrow> int \<Rightarrow> Conversation list \<Rightarrow> ConversationResponse list" where
  "conversation_results s user_id [] = []"
| "conversation_results s user_id (conv # convs) =
     (case get_user s (other_user_id conv user_id) of
        None \<Rightarrow> conversation_results s user_id convs
      | Some other_user \<Rightarrow>
          \<lparr>cvr_id = cv_id conv,
           cvr_other_user_display_name = u_display_name other_user,
           cvr_last_message_at = cv_last_message_at conv,
           cvr_unread_count = unread_count s (cv_id conv) user_id\<rparr>
          # conversation_results s user_id convs)"

definition get_user_conversations :: "db \<Rightarrow> int \<Rightarrow> ConversationResponse list" where
  "get_user_conversations s user_id =
     conversation_results s user_id
       (filter (\<lambda>c. cv_user1_id c = user_id \<or> cv_user2_id c = user_id) (conversations s))"

subsection \<open>Messages\<close>

text \<open>
  \<^verbatim>\<open>send_message\<close> reads the clock twice: for the message's \<^verbatim>\<open>created_at\<close>
  (\<open>created\<close>) and for the conversation's \<^verbatim>\<open>last_message_at\<close> (\<open>now\<close>).
\<close>

definition send_message ::
  "db \<Rightarrow> int \<Rightarrow> DirectMessageCreate \<Rightarrow> timestamp \<Rightarrow> timestamp \<Rightarrow> DirectMessage option \<times> db" where
  "send_message s sender_id message_data created now =
     (case get_conversation s (mc_conversation_id message_data) of
        None \<Rightarrow> (None, s)
      | Some conversation \<Rightarrow>
          if sender_id \<notin> set [cv_user1_id conversation, cv_user2_id conversation]
          then (None, s)
          else
            (let message =
                   \<lparr>dm_id = next_id (map dm_id (direct_messages s)),
                    dm_conversation_id = mc_conversation_id message_data,
                    dm_sender_id = sender_id,
                    dm_message_text = mc_message_text message_data,
                    dm_created_at = created,
                    dm_is_read = False\<rparr>
             in (Some message,
                 s\<lparr>direct_messages := direct_messages s @ [message],
                   conversations :=
                     map (\<lambda>c. if cv_id c = mc_conversation_id message_data
                               then c\<lparr>cv_last_message_at := Some now\<rparr> else c)
                         (conversations s)\<rparr>)))"

text \<open>
  The query of \<^verbatim>\<open>get_conversation_messages\<close>: the join of the messages with their
  senders' user rows, restricted to the conversation.
\<close>

definition message_rows :: "db \<Rightarrow> int \<Rightarrow> (DirectMessage \<times> User) list" where
  "message_rows s conversation_id =
     concat (map (\<lambda>m. map (\<lambda>u. (m, u)) (filter (\<lambda>u. u_id u = dm_sender_id m) (users s)))
                 (filter (\<lambda>m. dm_conversation_id m = conversation_id) (direct_messages s)))"

text \<open>
  \<^verbatim>\<open>order_by(desc(created_at))\<close>: newest first. The order of rows of equal
  \<^verbatim>\<open>created_at\<close> is the store's choice; here they keep their relative order.
\<close>

definition order_by_created_desc :: "(DirectMessage \<times> User) list \<Rightarrow> (DirectMessage \<times> User) list" where
  "order_by_created_desc rows = sort_key (\<lambda>(m, u). - dm_created_at m) rows"

definition message_response :: "DirectMessage \<times> User \<Rightarrow> DirectMessageResponse" where
  "message_response row =
     (case row of (message, sender) \<Rightarrow>
        \<lparr>mr_id = dm_id message,
         mr_sender_display_name = u_display_name sender,
         mr_message_text = dm_message_text message,
         mr_created_at = dm_created_at message,
         mr_is_read = dm_is_read message\<rparr>)"

text \<open>\<open>limit\<close> is a row count; a negative \<^verbatim>\<open>LIMIT\<close> is outside the model.\<close>

definition get_conversation_messages :: "db \<Rightarrow> int \<Rightarrow> int \<Rightarrow> nat \<Rightarrow> DirectMessageResponse list" where
  "get_conversation_messages s conversation_id user_id limit =
     (case get_conversation s conversation_id of
        None \<Rightarrow> []
      | Some conversation \<Rightarrow>
          if user_id \<notin> set [cv_user1_id conversation, cv_user2_id conversation] then []
          else rev (map message_response
                      (take limit (order_by_created_desc (message_rows s conversation_id)))))"

definition mark_messages_as_read :: "db \<Rightarrow> int \<Rightarrow> int \<Rightarrow> bool \<times> db" where
  "mark_messages_as_read s conversation_id user_id =
     (case get_conversation s conversation_id of
        None \<Rightarrow> (False, s)
      | Some conversation \<Rightarrow>
          if user_id \<notin> set [cv_user1_id conversation, cv_user2_id conversation]
          then (False, s)
          else (True,
                s\<lparr>direct_messages :=
                    map (\<lambda>m. if dm_conversation_id m = conversation_id
                                 \<and> dm_sender_id m \<noteq> user_id \<and> dm_is_read m = False
                              then m\<lparr>dm_is_read := True\<rparr> else m)
                        (direct_messages s)\<rparr>))"

section \<open>Predicates used in the statements\<close>

text \<open>
  The guard that \<^verbatim>\<open>get_conversation_messages\<close> and \<^verbatim>\<open>mark_messages_as_read\<close>
  share: the conversation exists and the user is one of its two participants.
\<close>

definition is_participant :: "db \<Rightarrow> int \<Rightarrow> int \<Rightarrow> bool" where
  "is_participant s conversation_id user_id =
     (case get_conversation s conversation_id of
        None \<Rightarrow> False
      | Some conversation \<Rightarrow>
          user_id \<in> set [cv_user1_id conversation, cv_user2_id conversation])"

text \<open>
  The rows that \<^verbatim>\<open>mark_messages_as_read\<close> selects, and that the unread count of
  \<^verbatim>\<open>get_user_conversations\<close> counts.
\<close>

definition unread_from_other :: "int \<Rightarrow> int \<Rightarrow> DirectMessage \<Rightarrow> bool" where
  "unread_from_other conversation_id user_id m \<longleftrightarrow>
     dm_conversation_id m = conversation_id \<and> dm_sender_id m \<noteq> user_id \<and> dm_is_read m = False"

text \<open>
  A conversation row is between two users when they are its participants, in either
  order.
\<close>

definition between :: "int \<Rightarrow> int \<Rightarrow> Conversation \<Rightarrow> bool" where
  "between a b c \<longleftrightarrow>
     (cv_user1_id c = a \<and> cv_user2_id c = b) \<or> (cv_user1_id c = b \<and> cv_user2_id c = a)"

section \<open>Constraints of the store\<close>

text \<open>
  The engine is the only writer of the like and conversation tables. It inserts a
  like only when the user has none for the entry, and a conversation only in canonical
  order (lower user id first) and when the pair has none; primary keys are unique.
\<close>

definition likes_unique :: "db \<Rightarrow> bool" where
  "likes_unique s \<longleftrightarrow>
     distinct (map l_id (reflection_likes s)) \<and>
     distinct (map (\<lambda>l. (l_user_id l, l_daily_entry_id l)) (reflection_likes s))"

definition conversations_canonical :: "db \<Rightarrow> bool" where
  "conversations_canonical s \<longleftrightarrow>
     (\<forall>c \<in> set (conversations s). cv_user1_id c \<le> cv_user2_id c) \<and>
     distinct (map (\<lambda>c. (cv_user1_id c, cv_user2_id c)) (conversations s))"

definition store_constraints :: "db \<Rightarrow> bool" where
  "store_constraints s \<longleftrightarrow>
     likes_unique s \<and> conversations_canonical s \<and> distinct (map cv_id (conversations s))"

text \<open>
  The foreign keys to the user table that \<^verbatim>\<open>models.py\<close> declares: every user id
  stored in a row is the id of a user row.
\<close>

definition user_keys_resolve :: "db \<Rightarrow> bool" where
  "user_keys_resolve s \<longleftrightarrow>
     (\<forall>e \<in> set (daily_entries s). get_user s (e_author_id e) \<noteq> None) \<and>
     (\<forall>l \<in> set (reflection_likes s). get_user s (l_user_id l) \<noteq> None) \<and>
     (\<forall>r \<in> set (contact_requests s).
        get_user s (cr_sender_id r) \<noteq> None \<and> get_user s (cr_recipient_id r) \<noteq> None) \<and>
     (\<forall>c \<in> set (conversations s).
        get_user s (cv_user1_id c) \<noteq> None \<and> get_user s (cv_user2_id c) \<noteq> None) \<and>
     (\<forall>m \<in> set (direct_messages s). get_user s (dm_sender_id m) \<noteq> None)"

text \<open>
  What keeps a user from requesting contact with themself: no like pairs an entry
  with its author, and no request has its sender as recipient.
\<close>

definition no_self_like :: "db \<Rightarrow> bool" where
  "no_self_like s \<longleftrightarrow>
     (\<forall>l \<in> set (reflection_likes s). \<forall>entry.
        get_entry s (l_daily_entry_id l) = Some entry \<longrightarrow> e_author_id entry \<noteq> l_user_id l)"

definition no_self_request :: "db \<Rightarrow> bool" where
  "no_self_request s \<longleftrightarrow>
     (\<forall>r \<in> set (contact_requests s). cr_sender_id r \<noteq> cr_recipient_id r)"

section \<open>Sequences of service calls\<close>

text \<open>
  The writing methods of the service as commands, each with the arguments and clock
  readings of the call; \<open>run\<close> applies a sequence of calls to a database.
\<close>

datatype command =
    ToggleLike int int timestamp
  | SendContactRequest int ContactRequestCreate timestamp
  | RespondToContactRequest int int bool timestamp timestamp
  | SendMessage int DirectMessageCreate timestamp timestamp
  | MarkMessagesAsRead int int

fun exec :: "db \<Rightarrow> command \<Rightarrow> db" where
  "exec s (ToggleLike user_id entry_id now) = snd (toggle_like s user_id entry_id now)"
| "exec s (SendContactRequest sender_id request_data now) =
     snd (send_contact_request s sender_id request_data now)"
| "exec s (RespondToContactRequest request_id recipient_id accept now conv_now) =
     snd (respond_to_contact_request s request_id recipient_id accept now conv_now)"
| "exec s (SendMessage sender_id message_data created now) =
     snd (send_message s sender_id message_data created now)"
| "exec s (MarkMessagesAsRead conversation_id user_id) =
     snd (mark_messages_as_read s conversation_id user_id)"

definition run :: "db \<Rightarrow> command list \<Rightarrow> db" where
  "run s commands = foldl exec s commands"

text \<open>The user on whose behalf a call is made.\<close>

fun caller :: "command \<Rightarrow> int" where
  "caller (ToggleLike user_id entry_id now) = user_id"
| "caller (SendContactRequest sender_id request_data now) = sender_id"
| "caller (RespondToContactRequest request_id recipient_id accept now conv_now) = recipient_id"
| "caller (SendMessage sender_id message_data created now) = sender_id"
| "caller (MarkMessagesAsRead conversation_id user_id) = user_id"

section \<open>Example databases\<close>

text \<open>
  Three users and one shared entry of user 1; then the databases after user 2 likes
  the entry, requests contact, and is accepted.
\<close>

definition example_user :: "int \<Rightarrow> string \<Rightarrow> User" where
  "example_user k name =
     \<lparr>u_id = k, u_username = name, u_email = name @ ''@example.com'',
      u_password_hash = ''x'', u_display_name = name, u_is_active = True,
      u_created_at = 0, u_last_login = None\<rparr>"

definition example_entry :: DailyEntry where
  "example_entry =
     \<lparr>e_id = 1, e_author_id = 1, e_wikipedia_image_id = 1, e_entry_date = 0,
      e_reflection_text = ''a shared reflection'', e_is_shared = True,
      e_created_at = 0, e_updated_at = 0\<rparr>"

definition example_db :: db where
  "example_db =
     \<lparr>users = [example_user 1 ''alice'', example_user 2 ''bob'', example_user 3 ''carol''],
      daily_entries = [example_entry],
      reflection_likes = [], contact_requests = [], conversations = [],
      direct_messages = []\<rparr>"

definition liked_db :: db where
  "liked_db = snd (toggle_like example_db 2 1 5)"

definition pending_db :: db where
  "pending_db =
     snd (send_contact_request liked_db 2
            \<lparr>rc_recipient_id = 1, rc_daily_entry_id = 1, rc_message = ''hello''\<rparr> 6)"

definition accepted_db :: db where
  "accepted_db = snd (respond_to_contact_request pending_db 1 1 True 7 8)"

definition example_commands :: "command list" where
  "example_commands =
     [ToggleLike 2 1 5,
      SendContactRequest 2 \<lparr>rc_recipient_id = 1, rc_daily_entry_id = 1, rc_message = ''hello''\<rparr> 6,
      ToggleLike 1 1 7,
      SendContactRequest 1 \<lparr>rc_recipient_id = 1, rc_daily_entry_id = 1, rc_message = ''me''\<rparr> 8]"

text \<open>
  A database after user 2 liked entry 1, asked user 1 for contact, was accepted, and
  three messages were exchanged; their \<^verbatim>\<open>created_at\<close> are not in insertion order.
\<close>

definition chat_conversation :: Conversation where
  "chat_conversation =
     \<lparr>cv_id = 1, cv_user1_id = 1, cv_user2_id = 2, cv_status = ACTIVE,
      cv_created_at = 7, cv_last_message_at = Some 13\<rparr>"

definition chat_messages :: "DirectMessage list" where
  "chat_messages =
     [\<lparr>dm_id = 1, dm_conversation_id = 1, dm_sender_id = 2, dm_message_text = ''hi'',
       dm_created_at = 10, dm_is_read = False\<rparr>,
      \<lparr>dm_id = 2, dm_conversation_id = 1, dm_sender_id = 1, dm_message_text = ''hello'',
       dm_created_at = 12, dm_is_read = False\<rparr>,
      \<lparr>dm_id = 3, dm_conversation_id = 1, dm_sender_id = 2, dm_message_text = ''there'',
       dm_created_at = 11, dm_is_read = False\<rparr>]"

definition chat_db :: db where
  "chat_db =
     example_db
       \<lparr>reflection_likes :=
          [\<lparr>l_id = 1, l_user_id = 2, l_daily_entry_id = 1, l_created_at = 5\<rparr>],
        contact_requests :=
          [\<lparr>cr_id = 1, cr_sender_id = 2, cr_recipient_id = 1, cr_daily_entry_id = 1,
            cr_message = ''hello'', cr_status = ACCEPTED, cr_created_at = 6,
            cr_responded_at = Some 7\<rparr>],
        conversations := [chat_conversation],
        direct_messages := chat_messages\<rparr>"

text \<open>
  The same with a second conversation of user 1 whose other participant, user 4, has
  no user row.
\<close>

definition orphan_conversation :: Conversation where
  "orphan_conversation =
     \<lparr>cv_id = 2, cv_user1_id = 1, cv_user2_id = 4, cv_status = ACTIVE,
      cv_created_at = 9, cv_last_message_at = None\<rparr>"

definition orphan_db :: db where
  "orphan_db = chat_db\<lparr>conversations := [chat_conversation, orphan_conversation]\<rparr>"

section \<open>Auxiliary facts about keys and lookups\<close>

lemma foldr_max_ge: "i \<in> set ids \<Longrightarrow> i \<le> foldr max ids (0::int)"
  by (induction ids) auto

lemma next_id_fresh: "i \<in> set ids \<Longrightarrow> i < next_id ids"
  using foldr_max_ge [of i ids] by (simp add: next_id_def)

lemma next_id_notin: "next_id ids \<notin> set ids"
  using next_id_fresh [of "next_id ids" ids] by auto

lemma find_snoc:
  "find P (xs @ [x]) = (case find P xs of None \<Rightarrow> (if P x then Some x else None) | Some y \<Rightarrow> Some y)"
  by (induction xs) auto

lemma find_in_set: "find P xs = Some x \<Longrightarrow> x \<in> set xs \<and> P x"
  by (induction xs) (auto split: if_splits)

lemma filter_fresh_key:
  "\<forall>x\<in>set xs. f x \<noteq> k \<Longrightarrow> filter (\<lambda>x. f x \<noteq> k) xs = xs"
  by (induction xs) auto

lemma filter_key_remove1:
  "distinct (map f xs) \<Longrightarrow> x \<in> set xs \<Longrightarrow> filter (\<lambda>y. f y \<noteq> f x) xs = remove1 x xs"
proof (induction xs)
  case Nil
  then show ?case by simp
next
  case (Cons a xs)
  show ?case
  proof (cases "a = x")
    case True
    with Cons.prems have "\<forall>y\<in>set xs. f y \<noteq> f x" by (auto simp: image_iff)
    then have "filter (\<lambda>y. f y \<noteq> f x) xs = xs" by (rule filter_fresh_key)
    with True show ?thesis by simp
  next
    case False
    with Cons.prems have "f a \<noteq> f x" by force
    with False Cons show ?thesis by simp
  qed
qed

lemma length_filter_remove1:
  "x \<in> set xs \<Longrightarrow> P x \<Longrightarrow> Suc (length (filter P (remove1 x xs))) = length (filter P xs)"
  by (induction xs) auto

lemma find_remove1_None:
  assumes "distinct (map g xs)" "find (\<lambda>y. g y = k) xs = Some x"
  shows "find (\<lambda>y. g y = k) (remove1 x xs) = None"
  using assms
proof (induction xs)
  case Nil
  then show ?case by simp
next
  case (Cons a xs)
  show ?case
  proof (cases "g a = k")
    case True
    with Cons.prems have "a = x" "\<forall>y\<in>set xs. g y \<noteq> k" by (auto simp: image_iff)
    then show ?thesis by (simp add: find_None_iff)
  next
    case False
    with Cons.prems have fx: "find (\<lambda>y. g y = k) xs = Some x" by simp
    then have "x \<in> set xs" by (simp add: find_in_set)
    with Cons.prems have "a \<noteq> x" by (auto simp: image_iff)
    with False Cons.IH fx Cons.prems show ?thesis by simp
  qed
qed

section \<open>Likes\<close>

lemma toggle_like_fresh:
  assumes "get_entry s e = Some entry" "e_is_shared entry" "e_author_id entry \<noteq> u"
    and "find_like s u e = None"
  shows "toggle_like s u e t1 = (True, s\<lparr>reflection_likes := reflection_likes s @
            [\<lparr>l_id = next_id (map l_id (reflection_likes s)), l_user_id = u,
              l_daily_entry_id = e, l_created_at = t1\<rparr>]\<rparr>)"
  using assms by (simp add: toggle_like_def)

lemma toggle_like_existing:
  assumes "get_entry s e = Some entry" "e_is_shared entry" "e_author_id entry \<noteq> u"
    and "find_like s u e = Some x"
  shows "toggle_like s u e t1 = (False, s\<lparr>reflection_likes :=
            filter (\<lambda>l. l_id l \<noteq> l_id x) (reflection_likes s)\<rparr>)"
  using assms by (simp add: toggle_like_def)

lemma toggle_like_undo_fresh:
  assumes "get_entry s e = Some entry" "e_is_shared entry" "e_author_id entry \<noteq> u"
    and "find_like s u e = None"
  shows "toggle_like (snd (toggle_like s u e t1)) u e t2 = (False, s)"
proof -
  let ?new = "\<lparr>l_id = next_id (map l_id (reflection_likes s)), l_user_id = u,
              l_daily_entry_id = e, l_created_at = t1\<rparr>"
  let ?s1 = "s\<lparr>reflection_likes := reflection_likes s @ [?new]\<rparr>"
  have s1: "toggle_like s u e t1 = (True, ?s1)"
    using assms by (rule toggle_like_fresh)
  have e1: "get_entry ?s1 e = Some entry"
    using assms(1) by (simp add: get_entry_def)
  have f1: "find_like ?s1 u e = Some ?new"
    using assms(4) by (simp add: find_like_def find_snoc)
  have "\<forall>l\<in>set (reflection_likes s). l_id l \<noteq> l_id ?new"
    using next_id_fresh [of _ "map l_id (reflection_likes s)"] by fastforce
  then have "filter (\<lambda>l. l_id l \<noteq> l_id ?new) (reflection_likes s) = reflection_likes s"
    by (rule filter_fresh_key)
  then have "filter (\<lambda>l. l_id l \<noteq> l_id ?new) (reflection_likes ?s1) = reflection_likes s"
    by simp
  then have "toggle_like ?s1 u e t2 = (False, s)"
    using toggle_like_existing [OF e1 assms(2,3) f1, of t2] by simp
  then show ?thesis using s1 by simp
qed

lemma toggle_like_redo_existing:
  assumes "get_entry s e = Some entry" "e_is_shared entry" "e_author_id entry \<noteq> u"
    and "find_like s u e = Some x" and "likes_unique s"
  shows "fst (toggle_like s u e t1) = False"
    and "fst (toggle_like (snd (toggle_like s u e t1)) u e t2) = True"
    and "get_entry_likes_count (snd (toggle_like (snd (toggle_like s u e t1)) u e t2)) e
           = get_entry_likes_count s e"
    and "user_has_liked_entry (snd (toggle_like (snd (toggle_like s u e t1)) u e t2)) u e"
proof -
  let ?L = "reflection_likes s"
  let ?s1 = "s\<lparr>reflection_likes := remove1 x ?L\<rparr>"
  have x: "x \<in> set ?L" "l_user_id x = u" "l_daily_entry_id x = e"
    using find_in_set [of _ ?L x] assms(4) by (auto simp: find_like_def)
  have rm: "filter (\<lambda>l. l_id l \<noteq> l_id x) ?L = remove1 x ?L"
    using assms(5) x(1) by (simp add: likes_unique_def filter_key_remove1)
  have s1: "toggle_like s u e t1 = (False, ?s1)"
    using toggle_like_existing [OF assms(1-4), of t1] rm by simp
  show "fst (toggle_like s u e t1) = False" using s1 by simp
  have e1: "get_entry ?s1 e = Some entry"
    using assms(1) by (simp add: get_entry_def)
  have "find (\<lambda>l. (l_user_id l, l_daily_entry_id l) = (u, e)) (remove1 x ?L) = None"
    using assms(4,5) by (intro find_remove1_None) (simp_all add: likes_unique_def find_like_def)
  then have f1: "find_like ?s1 u e = None"
    by (simp add: find_like_def)
  let ?new = "\<lparr>l_id = next_id (map l_id (remove1 x ?L)), l_user_id = u,
               l_daily_entry_id = e, l_created_at = t2\<rparr>"
  have s2: "toggle_like ?s1 u e t2 = (True, ?s1\<lparr>reflection_likes := remove1 x ?L @ [?new]\<rparr>)"
    using toggle_like_fresh [OF e1 assms(2,3) f1, of t2] by simp
  show "fst (toggle_like (snd (toggle_like s u e t1)) u e t2) = True"
    using s1 s2 by simp
  show "get_entry_likes_count (snd (toggle_like (snd (toggle_like s u e t1)) u e t2)) e
           = get_entry_likes_count s e"
    using s1 s2 length_filter_remove1 [of x ?L "\<lambda>l. l_daily_entry_id l = e"] x
    by (simp add: get_entry_likes_count_def)
  show "user_has_liked_entry (snd (toggle_like (snd (toggle_like s u e t1)) u e t2)) u e"
    using s1 s2 f1 by (simp add: user_has_liked_entry_def find_like_def find_snoc)
qed

lemma liked_db_eq:
  "liked_db = example_db\<lparr>reflection_likes :=
     [\<lparr>l_id = 1, l_user_id = 2, l_daily_entry_id = 1, l_created_at = 5\<rparr>]\<rparr>"
  by (simp add: liked_db_def toggle_like_def example_db_def example_entry_def get_entry_def
      find_like_def next_id_def)

text \<open>
  Claim C3 as the specification words it: for a shared entry \<open>e\<close> and a user \<open>u\<close> other
  than its author, the first of two successive calls of \<^verbatim>\<open>toggle_like\<close> returns true,
  the second false, and \<open>u\<close> has not liked \<open>e\<close> afterwards. This fails when \<open>u\<close>
  already likes \<open>e\<close>: in \<open>liked_db\<close>, reached by one \<^verbatim>\<open>toggle_like\<close>, user 2 likes
  entry 1 of user 1; there the first call returns false, the second true, and user 2
  likes the entry afterwards.
\<close>

theorem toggle_like_twice_counterexample:
  "get_entry liked_db 1 = Some example_entry \<and> e_is_shared example_entry
   \<and> e_author_id example_entry \<noteq> 2
   \<and> fst (toggle_like liked_db 2 1 7) = False
   \<and> fst (toggle_like (snd (toggle_like liked_db 2 1 7)) 2 1 8) = True
   \<and> user_has_liked_entry (snd (toggle_like (snd (toggle_like liked_db 2 1 7)) 2 1 8)) 2 1"
  by (simp add: liked_db_eq toggle_like_def example_db_def example_entry_def get_entry_def
      find_like_def next_id_def user_has_liked_entry_def)

text \<open>
  Claim C3, amended: for a shared entry \<open>e\<close> and a user \<open>u\<close> other than its author,
  two successive calls of \<^verbatim>\<open>toggle_like\<close> restore both the entry's like count and
  whether \<open>u\<close> likes \<open>e\<close> to what they were before the first call; the first call
  returns true exactly when \<open>u\<close> did not like \<open>e\<close> before, and the second call returns
  the opposite. So when \<open>u\<close> did not like \<open>e\<close>, the calls return true, then false, and
  \<open>u\<close> does not like \<open>e\<close> afterwards, as the claim says. When \<open>u\<close> already liked \<open>e\<close>
  this needs the like table to hold at most one row per user and entry, with distinct
  primary keys, which the engine keeps.
\<close>

theorem toggle_like_twice:
  assumes "get_entry s e = Some entry" and "e_is_shared entry" and "e_author_id entry \<noteq> u"
    and "\<not> user_has_liked_entry s u e \<or> likes_unique s"
  shows "get_entry_likes_count (snd (toggle_like (snd (toggle_like s u e t1)) u e t2)) e
           = get_entry_likes_count s e
       \<and> user_has_liked_entry (snd (toggle_like (snd (toggle_like s u e t1)) u e t2)) u e
           = user_has_liked_entry s u e
       \<and> fst (toggle_like s u e t1) = (\<not> user_has_liked_entry s u e)
       \<and> fst (toggle_like (snd (toggle_like s u e t1)) u e t2) = user_has_liked_entry s u e"
proof (cases "find_like s u e")
  case None
  have "toggle_like (snd (toggle_like s u e t1)) u e t2 = (False, s)"
    using assms(1-3) None by (rule toggle_like_undo_fresh)
  moreover have "fst (toggle_like s u e t1) = True"
    using toggle_like_fresh [OF assms(1-3) None, of t1] by simp
  ultimately show ?thesis using None by (simp add: user_has_liked_entry_def)
next
  case (Some x)
  with assms(4) have unique: "likes_unique s"
    by (simp add: user_has_liked_entry_def)
  show ?thesis
    using toggle_like_redo_existing [OF assms(1-3) Some unique] Some
    by (simp add: user_has_liked_entry_def)
qed

theorem toggle_like_twice_witness:
  "get_entry liked_db 1 = Some example_entry \<and> e_is_shared example_entry
   \<and> e_author_id example_entry \<noteq> 2 \<and> likes_unique liked_db
   \<and> user_has_liked_entry liked_db 2 1
   \<and> get_entry_likes_count liked_db 1 = 1
   \<and> get_entry_likes_count (snd (toggle_like (snd (toggle_like liked_db 2 1 7)) 2 1 8)) 1 = 1
   \<and> user_has_liked_entry (snd (toggle_like (snd (toggle_like liked_db 2 1 7)) 2 1 8)) 2 1
   \<and> get_entry example_db 1 = Some example_entry
   \<and> \<not> user_has_liked_entry example_db 2 1
   \<and> get_entry_likes_count (snd (toggle_like (snd (toggle_like example_db 2 1 7)) 2 1 8)) 1 = 0
   \<and> \<not> user_has_liked_entry (snd (toggle_like (snd (toggle_like example_db 2 1 7)) 2 1 8)) 2 1
   \<and> fst (toggle_like example_db 2 1 7) = True
   \<and> fst (toggle_like (snd (toggle_like example_db 2 1 7)) 2 1 8) = False"
proof -
  have e: "e_is_shared example_entry" "e_author_id example_entry \<noteq> 2"
    by (simp_all add: example_entry_def)
  have h: "get_entry example_db 1 = Some example_entry"
    "\<not> user_has_liked_entry example_db 2 1 \<or> likes_unique example_db"
    by (simp_all add: example_db_def example_entry_def get_entry_def user_has_liked_entry_def
        find_like_def)
  have c: "get_entry_likes_count example_db 1 = 0" "\<not> user_has_liked_entry example_db 2 1"
    by (simp_all add: example_db_def get_entry_likes_count_def user_has_liked_entry_def
        find_like_def)
  have u: "likes_unique liked_db"
    by (simp add: liked_db_eq likes_unique_def)
  have h': "get_entry liked_db 1 = Some example_entry"
    "\<not> user_has_liked_entry liked_db 2 1 \<or> likes_unique liked_db"
    using u by (simp_all add: liked_db_eq example_db_def example_entry_def get_entry_def)
  have c': "get_entry_likes_count liked_db 1 = 1" "user_has_liked_entry liked_db 2 1"
    by (simp_all add: liked_db_eq get_entry_likes_count_def user_has_liked_entry_def
        find_like_def)
  show ?thesis
    using e h(1) c u h'(1) c' toggle_like_twice [OF h(1) e h(2), of 7 8]
      toggle_like_twice [OF h'(1) e h'(2), of 7 8]
    by simp
qed

section \<open>The like gate of contact requests\<close>

text \<open>
  Claim C5: when the sender has not liked the entry, \<^verbatim>\<open>send_contact_request\<close>
  returns \<^verbatim>\<open>None\<close> and the database is unchanged (no request row is created),
  whatever recipient, entry and message text the request data hold.
\<close>

theorem send_contact_request_requires_like:
  "\<not> user_has_liked_entry s sender_id (rc_daily_entry_id request_data) \<Longrightarrow>
   send_contact_request s sender_id request_data now = (None, s)"
  by (simp add: send_contact_request_def split: option.splits)

theorem send_contact_request_requires_like_witness:
  "\<not> user_has_liked_entry example_db 2 1
   \<and> send_contact_request example_db 2
        \<lparr>rc_recipient_id = 1, rc_daily_entry_id = 1, rc_message = ''hello''\<rparr> 10
       = (None, example_db)"
proof -
  have h: "\<not> user_has_liked_entry example_db 2
             (rc_daily_entry_id \<lparr>rc_recipient_id = 1, rc_daily_entry_id = 1, rc_message = ''hello''\<rparr>)"
    by (simp add: example_db_def user_has_liked_entry_def find_like_def)
  show ?thesis using h send_contact_request_requires_like [OF h, of 10] by simp
qed

section \<open>Sending a message\<close>

text \<open>
  Claim C6: when the conversation exists and the sender is neither of its two
  participants, \<^verbatim>\<open>send_message\<close> returns \<^verbatim>\<open>None\<close> and leaves the database as it
  was: no message is created, and the conversation row, with its
  \<^verbatim>\<open>last_message_at\<close>, is the same.
\<close>

theorem send_message_non_participant:
  assumes "get_conversation s (mc_conversation_id message_data) = Some c"
    and "sender_id \<noteq> cv_user1_id c" and "sender_id \<noteq> cv_user2_id c"
  shows "send_message s sender_id message_data created now = (None, s)
       \<and> direct_messages (snd (send_message s sender_id message_data created now))
           = direct_messages s
       \<and> get_conversation (snd (send_message s sender_id message_data created now))
             (mc_conversation_id message_data) = Some c"
  using assms by (simp add: send_message_def)

theorem send_message_non_participant_witness:
  "get_conversation chat_db 1 = Some chat_conversation
   \<and> (3::int) \<noteq> cv_user1_id chat_conversation \<and> 3 \<noteq> cv_user2_id chat_conversation
   \<and> send_message chat_db 3 \<lparr>mc_conversation_id = 1, mc_message_text = ''let me in''\<rparr> 20 21
       = (None, chat_db)"
proof -
  have h: "get_conversation chat_db
             (mc_conversation_id \<lparr>mc_conversation_id = 1, mc_message_text = ''let me in''\<rparr>)
           = Some chat_conversation"
    "(3::int) \<noteq> cv_user1_id chat_conversation" "(3::int) \<noteq> cv_user2_id chat_conversation"
    by (simp_all add: chat_db_def chat_conversation_def get_conversation_def)
  show ?thesis using h send_message_non_participant [OF h, of 20 21] by simp
qed

section \<open>Sending a contact request twice\<close>

lemma send_contact_request_cases:
  "send_contact_request s sender rd now = (None, s)
   \<or> (\<exists>r. find_request s sender (rc_recipient_id rd) (rc_daily_entry_id rd) = Some r
          \<and> send_contact_request s sender rd now = (Some r, s))
   \<or> (find_request s sender (rc_recipient_id rd) (rc_daily_entry_id rd) = None
      \<and> (\<exists>entry. get_entry s (rc_daily_entry_id rd) = Some entry \<and> e_is_shared entry
             \<and> e_author_id entry = rc_recipient_id rd)
      \<and> user_has_liked_entry s sender (rc_daily_entry_id rd)
      \<and> send_contact_request s sender rd now =
          (Some \<lparr>cr_id = next_id (map cr_id (contact_requests s)), cr_sender_id = sender,
                 cr_recipient_id = rc_recipient_id rd, cr_daily_entry_id = rc_daily_entry_id rd,
                 cr_message = rc_message rd, cr_status = PENDING, cr_created_at = now,
                 cr_responded_at = None\<rparr>,
           s\<lparr>contact_requests := contact_requests s @
               [\<lparr>cr_id = next_id (map cr_id (contact_requests s)), cr_sender_id = sender,
                 cr_recipient_id = rc_recipient_id rd, cr_daily_entry_id = rc_daily_entry_id rd,
                 cr_message = rc_message rd, cr_status = PENDING, cr_created_at = now,
                 cr_responded_at = None\<rparr>]\<rparr>))"
  by (auto simp: send_contact_request_def Let_def split: option.splits)

lemma send_contact_request_existing:
  assumes "send_contact_request s sender rd now = (Some r, s1)"
  shows "send_contact_request s1 sender (rd\<lparr>rc_message := msg\<rparr>) now' = (Some r, s1)"
proof -
  from send_contact_request_cases [of s sender rd now] assms
  consider (old) "find_request s sender (rc_recipient_id rd) (rc_daily_entry_id rd) = Some r" "s1 = s"
    | (new) "find_request s sender (rc_recipient_id rd) (rc_daily_entry_id rd) = None"
        "r = \<lparr>cr_id = next_id (map cr_id (contact_requests s)), cr_sender_id = sender,
                 cr_recipient_id = rc_recipient_id rd, cr_daily_entry_id = rc_daily_entry_id rd,
                 cr_message = rc_message rd, cr_status = PENDING, cr_created_at = now,
                 cr_responded_at = None\<rparr>"
        "s1 = s\<lparr>contact_requests := contact_requests s @ [r]\<rparr>"
    by auto
  then have f: "find_request s1 sender (rc_recipient_id rd) (rc_daily_entry_id rd) = Some r"
    by cases (simp_all add: find_request_def find_snoc)
  have e: "get_entry s1 = get_entry s" "user_has_liked_entry s1 = user_has_liked_entry s"
    using send_contact_request_cases [of s sender rd now] assms
    by (auto simp: get_entry_def user_has_liked_entry_def find_like_def fun_eq_iff)
  have "\<exists>entry. get_entry s (rc_daily_entry_id rd) = Some entry \<and> e_is_shared entry
             \<and> e_author_id entry = rc_recipient_id rd"
    and "user_has_liked_entry s sender (rc_daily_entry_id rd)"
    using assms by (auto simp: send_contact_request_def split: option.splits if_splits)
  with f e show ?thesis
    by (auto simp: send_contact_request_def)
qed

lemma send_contact_request_rejected:
  assumes "send_contact_request s sender rd now = (None, s1)"
  shows "s1 = s \<and> send_contact_request s sender (rd\<lparr>rc_message := msg\<rparr>) now' = (None, s)"
  using assms
  by (auto simp: send_contact_request_def Let_def split: option.splits if_splits)

lemma send_contact_request_row_count:
  "length (filter (\<lambda>r. cr_sender_id r = sender \<and> cr_recipient_id r = rc_recipient_id rd
                        \<and> cr_daily_entry_id r = rc_daily_entry_id rd)
             (contact_requests (snd (send_contact_request s sender rd now))))
   = (if fst (send_contact_request s sender rd now) = None
      then length (filter (\<lambda>r. cr_sender_id r = sender \<and> cr_recipient_id r = rc_recipient_id rd
                        \<and> cr_daily_entry_id r = rc_daily_entry_id rd) (contact_requests s))
      else max 1 (length (filter (\<lambda>r. cr_sender_id r = sender
                        \<and> cr_recipient_id r = rc_recipient_id rd
                        \<and> cr_daily_entry_id r = rc_daily_entry_id rd) (contact_requests s))))"
proof -
  let ?P = "\<lambda>r. cr_sender_id r = sender \<and> cr_recipient_id r = rc_recipient_id rd
                        \<and> cr_daily_entry_id r = rc_daily_entry_id rd"
  from send_contact_request_cases [of s sender rd now]
  consider (rej) "send_contact_request s sender rd now = (None, s)"
    | (old) r where "find ?P (contact_requests s) = Some r"
        "send_contact_request s sender rd now = (Some r, s)"
    | (new) r where "find ?P (contact_requests s) = None"
        "send_contact_request s sender rd now = (Some r, s\<lparr>contact_requests := contact_requests s @ [r]\<rparr>)"
        "?P r"
    unfolding find_request_def by fastforce
  then show ?thesis
  proof cases
    case rej
    then show ?thesis by simp
  next
    case old
    from old(1) have "r \<in> set (contact_requests s)" "?P r"
      using find_in_set [of ?P "contact_requests s" r] by simp_all
    then have "filter ?P (contact_requests s) \<noteq> []"
      by (auto simp: filter_empty_conv)
    then have "1 \<le> length (filter ?P (contact_requests s))"
      by (cases "filter ?P (contact_requests s)") simp_all
    with old(2) show ?thesis by simp
  next
    case new
    from new(1) have "filter ?P (contact_requests s) = []"
      by (auto simp: find_None_iff filter_empty_conv)
    with new(2,3) show ?thesis by simp
  qed
qed

text \<open>
  Claim C4: a second \<^verbatim>\<open>send_contact_request\<close> for the same sender, recipient and
  entry, made right after the first (with any message text and at any time), returns
  what the first returned, the same record with the same id and fields, and leaves
  the database exactly as the first call left it, so it creates no row. The first
  call itself adds a row for the triple only when there was none: after it the
  triple has as many rows as before, or one if there was none and the call was not
  rejected.
\<close>

theorem send_contact_request_twice:
  "send_contact_request (snd (send_contact_request s sender_id request_data t1)) sender_id
     (request_data\<lparr>rc_message := message2\<rparr>) t2
   = send_contact_request s sender_id request_data t1
   \<and> length (filter (\<lambda>r. cr_sender_id r = sender_id
                          \<and> cr_recipient_id r = rc_recipient_id request_data
                          \<and> cr_daily_entry_id r = rc_daily_entry_id request_data)
               (contact_requests (snd (send_contact_request s sender_id request_data t1))))
     = (if fst (send_contact_request s sender_id request_data t1) = None
        then length (filter (\<lambda>r. cr_sender_id r = sender_id
                          \<and> cr_recipient_id r = rc_recipient_id request_data
                          \<and> cr_daily_entry_id r = rc_daily_entry_id request_data)
               (contact_requests s))
        else max 1 (length (filter (\<lambda>r. cr_sender_id r = sender_id
                          \<and> cr_recipient_id r = rc_recipient_id request_data
                          \<and> cr_daily_entry_id r = rc_daily_entry_id request_data)
               (contact_requests s))))"
proof -
  obtain r1 s1 where first: "send_contact_request s sender_id request_data t1 = (r1, s1)"
    by (cases "send_contact_request s sender_id request_data t1")
  have "send_contact_request s1 sender_id (request_data\<lparr>rc_message := message2\<rparr>) t2 = (r1, s1)"
  proof (cases r1)
    case None
    with first send_contact_request_rejected [of s sender_id request_data t1 s1 message2 t2]
    show ?thesis by simp
  next
    case (Some r)
    with first send_contact_request_existing [of s sender_id request_data t1 r s1 message2 t2]
    show ?thesis by simp
  qed
  with first send_contact_request_row_count [of sender_id request_data s t1]
  show ?thesis by simp
qed

theorem send_contact_request_twice_witness:
  "send_contact_request liked_db 2
      \<lparr>rc_recipient_id = 1, rc_daily_entry_id = 1, rc_message = ''hello''\<rparr> 6
    = (Some \<lparr>cr_id = 1, cr_sender_id = 2, cr_recipient_id = 1, cr_daily_entry_id = 1,
             cr_message = ''hello'', cr_status = PENDING, cr_created_at = 6,
             cr_responded_at = None\<rparr>,
       liked_db\<lparr>contact_requests :=
         [\<lparr>cr_id = 1, cr_sender_id = 2, cr_recipient_id = 1, cr_daily_entry_id = 1,
           cr_message = ''hello'', cr_status = PENDING, cr_created_at = 6,
           cr_responded_at = None\<rparr>]\<rparr>)
   \<and> send_contact_request
       (snd (send_contact_request liked_db 2
          \<lparr>rc_recipient_id = 1, rc_daily_entry_id = 1, rc_message = ''hello''\<rparr> 6)) 2
       \<lparr>rc_recipient_id = 1, rc_daily_entry_id = 1, rc_message = ''hello again''\<rparr> 9
     = send_contact_request liked_db 2
         \<lparr>rc_recipient_id = 1, rc_daily_entry_id = 1, rc_message = ''hello''\<rparr> 6"
proof -
  have first: "send_contact_request liked_db 2
      \<lparr>rc_recipient_id = 1, rc_daily_entry_id = 1, rc_message = ''hello''\<rparr> 6
    = (Some \<lparr>cr_id = 1, cr_sender_id = 2, cr_recipient_id = 1, cr_daily_entry_id = 1,
             cr_message = ''hello'', cr_status = PENDING, cr_created_at = 6,
             cr_responded_at = None\<rparr>,
       liked_db\<lparr>contact_requests :=
         [\<lparr>cr_id = 1, cr_sender_id = 2, cr_recipient_id = 1, cr_daily_entry_id = 1,
           cr_message = ''hello'', cr_status = PENDING, cr_created_at = 6,
           cr_responded_at = None\<rparr>]\<rparr>)"
    by (simp add: liked_db_eq send_contact_request_def example_db_def example_entry_def
        get_entry_def user_has_liked_entry_def find_like_def find_request_def next_id_def
        Let_def)
  show ?thesis
    using first send_contact_request_twice [of liked_db 2
        "\<lparr>rc_recipient_id = 1, rc_daily_entry_id = 1, rc_message = ''hello''\<rparr>" 6
        "''hello again''" 9]
    by simp
qed

section \<open>Responding to a contact request\<close>

lemma find_map_update:
  assumes "find (\<lambda>x. f x = k) xs = Some x" and "\<And>y. f (g y) = f y"
  shows "find (\<lambda>x. f x = k) (map (\<lambda>y. if f y = k then g y else y) xs) = Some (g x)"
  using assms by (induction xs) (auto split: if_splits)

lemma create_conversation_other_tables:
  "users (snd (create_conversation s a b t)) = users s"
  "daily_entries (snd (create_conversation s a b t)) = daily_entries s"
  "reflection_likes (snd (create_conversation s a b t)) = reflection_likes s"
  "contact_requests (snd (create_conversation s a b t)) = contact_requests s"
  "direct_messages (snd (create_conversation s a b t)) = direct_messages s"
  by (simp_all add: create_conversation_def Let_def split: option.splits)

lemma pending_db_eq:
  "pending_db = liked_db\<lparr>contact_requests :=
         [\<lparr>cr_id = 1, cr_sender_id = 2, cr_recipient_id = 1, cr_daily_entry_id = 1,
           cr_message = ''hello'', cr_status = PENDING, cr_created_at = 6,
           cr_responded_at = None\<rparr>]\<rparr>"
  by (simp add: pending_db_def liked_db_eq send_contact_request_def example_db_def
      example_entry_def get_entry_def user_has_liked_entry_def find_like_def find_request_def
      next_id_def Let_def)

lemma accepted_db_eq:
  "accepted_db = liked_db\<lparr>contact_requests :=
         [\<lparr>cr_id = 1, cr_sender_id = 2, cr_recipient_id = 1, cr_daily_entry_id = 1,
           cr_message = ''hello'', cr_status = ACCEPTED, cr_created_at = 6,
           cr_responded_at = Some 7\<rparr>],
       conversations :=
         [\<lparr>cv_id = 1, cv_user1_id = 1, cv_user2_id = 2, cv_status = ACTIVE,
           cv_created_at = 8, cv_last_message_at = None\<rparr>]\<rparr>"
  by (simp add: accepted_db_def pending_db_eq liked_db_eq respond_to_contact_request_def
      create_conversation_def example_db_def get_request_def next_id_def Let_def)

text \<open>
  Claim C1 as the specification words it: a call of \<^verbatim>\<open>respond_to_contact_request\<close> on a
  request that is already Accepted or Declined is rejected and leaves status and
  \<^verbatim>\<open>responded_at\<close> as the first response set them. The source never reads the
  status. In \<open>accepted_db\<close> request 1 was accepted by its recipient, user 1, at
  time 7; a second response by user 1 at time 9, declining, is not rejected and
  stores Declined and 9.
\<close>

theorem respond_twice_counterexample:
  "map_option cr_status (get_request accepted_db 1) = Some ACCEPTED
   \<and> map_option cr_responded_at (get_request accepted_db 1) = Some (Some 7)
   \<and> fst (respond_to_contact_request accepted_db 1 1 False 9 10) \<noteq> None
   \<and> map_option cr_status
        (get_request (snd (respond_to_contact_request accepted_db 1 1 False 9 10)) 1)
       = Some DECLINED
   \<and> map_option cr_responded_at
        (get_request (snd (respond_to_contact_request accepted_db 1 1 False 9 10)) 1)
       = Some (Some 9)"
  by (simp add: accepted_db_eq liked_db_eq respond_to_contact_request_def example_db_def
      get_request_def Let_def)

text \<open>
  Claim C1, amended: on a request that is already Accepted or Declined, a call by a
  user other than the request's recipient is rejected (\<^verbatim>\<open>None\<close>) and leaves the
  database unchanged; a call by the recipient is not rejected: it returns the request
  with the status chosen by \<open>accept\<close> and \<^verbatim>\<open>responded_at\<close> set to the time of this
  call, and this is the row stored afterwards.
\<close>

theorem respond_to_contact_request_terminal:
  assumes "get_request s request_id = Some request" and "cr_status request \<noteq> PENDING"
  shows "(responder_id \<noteq> cr_recipient_id request \<longrightarrow>
            respond_to_contact_request s request_id responder_id accept now conv_now = (None, s))
       \<and> (responder_id = cr_recipient_id request \<longrightarrow>
            fst (respond_to_contact_request s request_id responder_id accept now conv_now)
              = Some (request\<lparr>cr_status := (if accept then ACCEPTED else DECLINED),
                               cr_responded_at := Some now\<rparr>)
            \<and> get_request
                 (snd (respond_to_contact_request s request_id responder_id accept now conv_now))
                 request_id
              = Some (request\<lparr>cr_status := (if accept then ACCEPTED else DECLINED),
                               cr_responded_at := Some now\<rparr>))"
proof -
  let ?g = "\<lambda>r. r\<lparr>cr_status := (if accept then ACCEPTED else DECLINED),
                     cr_responded_at := Some now\<rparr>"
  have upd: "find (\<lambda>r. cr_id r = request_id)
               (map (\<lambda>r. if cr_id r = request_id then ?g r else r) (contact_requests s))
             = Some (?g request)"
    using assms(1) unfolding get_request_def by (rule find_map_update) simp
  show ?thesis
    using assms(1) upd
    by (simp add: respond_to_contact_request_def Let_def get_request_def
        create_conversation_other_tables)
qed

theorem respond_to_contact_request_terminal_witness:
  "get_request accepted_db 1 =
     Some \<lparr>cr_id = 1, cr_sender_id = 2, cr_recipient_id = 1, cr_daily_entry_id = 1,
           cr_message = ''hello'', cr_status = ACCEPTED, cr_created_at = 6,
           cr_responded_at = Some 7\<rparr>
   \<and> ACCEPTED \<noteq> PENDING
   \<and> respond_to_contact_request accepted_db 1 2 False 9 10 = (None, accepted_db)
   \<and> fst (respond_to_contact_request accepted_db 1 1 False 9 10) =
       Some \<lparr>cr_id = 1, cr_sender_id = 2, cr_recipient_id = 1, cr_daily_entry_id = 1,
           cr_message = ''hello'', cr_status = DECLINED, cr_created_at = 6,
           cr_responded_at = Some 9\<rparr>"
proof -
  let ?r = "\<lparr>cr_id = 1, cr_sender_id = 2, cr_recipient_id = 1, cr_daily_entry_id = 1,
           cr_message = ''hello'', cr_status = ACCEPTED, cr_created_at = 6,
           cr_responded_at = Some 7\<rparr>"
  have h: "get_request accepted_db 1 = Some ?r" "cr_status ?r \<noteq> PENDING"
    by (simp_all add: accepted_db_eq get_request_def)
  show ?thesis
    using h respond_to_contact_request_terminal [OF h, of 2 False 9 10]
      respond_to_contact_request_terminal [OF h, of 1 False 9 10]
    by simp
qed

section \<open>Marking messages as read\<close>

lemma mark_messages_as_read_eq:
  "is_participant s cid uid \<Longrightarrow>
   mark_messages_as_read s cid uid =
     (True, s\<lparr>direct_messages :=
        map (\<lambda>m. if unread_from_other cid uid m then m\<lparr>dm_is_read := True\<rparr> else m)
            (direct_messages s)\<rparr>)"
  by (auto simp: mark_messages_as_read_def is_participant_def unread_from_other_def
      split: option.splits)

lemma mark_messages_as_read_rejected:
  "\<not> is_participant s cid uid \<Longrightarrow> mark_messages_as_read s cid uid = (False, s)"
  by (auto simp: mark_messages_as_read_def is_participant_def split: option.splits)

lemma is_participant_messages [simp]:
  "is_participant (s\<lparr>direct_messages := ms\<rparr>) cid uid = is_participant s cid uid"
  by (simp add: is_participant_def get_conversation_def)

lemma unread_count_alt:
  "unread_count s cid uid = int (length (filter (unread_from_other cid uid) (direct_messages s)))"
  by (simp add: unread_count_def unread_from_other_def [abs_def])

lemma none_unread_after_mark:
  "filter (unread_from_other cid uid)
     (map (\<lambda>m. if unread_from_other cid uid m then m\<lparr>dm_is_read := True\<rparr> else m) ms) = []"
  by (induction ms) (simp_all add: unread_from_other_def)

lemma mark_map_idem:
  "map (\<lambda>m. if unread_from_other cid uid m then m\<lparr>dm_is_read := True\<rparr> else m)
     (map (\<lambda>m. if unread_from_other cid uid m then m\<lparr>dm_is_read := True\<rparr> else m) ms)
   = map (\<lambda>m. if unread_from_other cid uid m then m\<lparr>dm_is_read := True\<rparr> else m) ms"
  by (auto simp: unread_from_other_def)

lemma conversation_results_unread:
  "r \<in> set (conversation_results s u convs) \<Longrightarrow>
   cvr_unread_count r = unread_count s (cvr_id r) u"
  by (induction convs) (auto split: option.splits)

text \<open>
  Claim C8: for a participant of an existing conversation, \<^verbatim>\<open>mark_messages_as_read\<close>
  returns true and changes only the message table: it keeps every row in place, sets
  \<^verbatim>\<open>is_read\<close> on exactly the rows of this conversation that were unread and sent by
  someone else, and leaves every other row as it was. Afterwards the requester's unread
  count for the conversation is 0, also in the summary that
  \<^verbatim>\<open>get_user_conversations\<close> returns, and a repeated call returns true and changes
  nothing. For anyone else, or an unknown conversation id, it returns false and the
  database is unchanged.
\<close>

theorem mark_messages_as_read_effect:
  "(is_participant s conversation_id user_id \<longrightarrow>
      fst (mark_messages_as_read s conversation_id user_id) = True
      \<and> snd (mark_messages_as_read s conversation_id user_id)
          = s\<lparr>direct_messages :=
               direct_messages (snd (mark_messages_as_read s conversation_id user_id))\<rparr>
      \<and> length (direct_messages (snd (mark_messages_as_read s conversation_id user_id)))
          = length (direct_messages s)
      \<and> (\<forall>i < length (direct_messages s).
            direct_messages (snd (mark_messages_as_read s conversation_id user_id)) ! i
            = (if unread_from_other conversation_id user_id (direct_messages s ! i)
               then (direct_messages s ! i)\<lparr>dm_is_read := True\<rparr>
               else direct_messages s ! i))
      \<and> unread_count (snd (mark_messages_as_read s conversation_id user_id))
           conversation_id user_id = 0
      \<and> (\<forall>r \<in> set (get_user_conversations
                       (snd (mark_messages_as_read s conversation_id user_id)) user_id).
            cvr_id r = conversation_id \<longrightarrow> cvr_unread_count r = 0)
      \<and> mark_messages_as_read (snd (mark_messages_as_read s conversation_id user_id))
           conversation_id user_id
          = (True, snd (mark_messages_as_read s conversation_id user_id)))
   \<and> (\<not> is_participant s conversation_id user_id \<longrightarrow>
        mark_messages_as_read s conversation_id user_id = (False, s))"
  (is "(?P \<longrightarrow> ?A) \<and> (\<not> ?P \<longrightarrow> ?B)")
proof (rule conjI; rule impI)
  assume "\<not> ?P"
  then show ?B by (rule mark_messages_as_read_rejected)
next
  assume part: ?P
  let ?f = "\<lambda>m. if unread_from_other conversation_id user_id m then m\<lparr>dm_is_read := True\<rparr> else m"
  let ?s' = "s\<lparr>direct_messages := map ?f (direct_messages s)\<rparr>"
  have eq: "mark_messages_as_read s conversation_id user_id = (True, ?s')"
    using part by (rule mark_messages_as_read_eq)
  have zero: "unread_count ?s' conversation_id user_id = 0"
    by (simp add: unread_count_alt none_unread_after_mark)
  have summ: "\<forall>r \<in> set (get_user_conversations ?s' user_id).
            cvr_id r = conversation_id \<longrightarrow> cvr_unread_count r = 0"
  proof (intro ballI impI)
    fix r assume r: "r \<in> set (get_user_conversations ?s' user_id)"
      and rid: "cvr_id r = conversation_id"
    from r have "cvr_unread_count r = unread_count ?s' (cvr_id r) user_id"
      unfolding get_user_conversations_def by (rule conversation_results_unread)
    with rid zero show "cvr_unread_count r = 0" by simp
  qed
  have part': "is_participant ?s' conversation_id user_id"
    using part by simp
  have again: "mark_messages_as_read ?s' conversation_id user_id = (True, ?s')"
    unfolding mark_messages_as_read_eq [OF part'] by (simp add: mark_map_idem)
  have nth: "\<forall>i < length (direct_messages s).
            direct_messages ?s' ! i = ?f (direct_messages s ! i)"
    by simp
  show ?A
    unfolding eq fst_conv snd_conv
    using zero summ again nth by (intro conjI) simp_all
qed

theorem mark_messages_as_read_effect_witness:
  "is_participant chat_db 1 1
   \<and> unread_count chat_db 1 1 = 2
   \<and> fst (mark_messages_as_read chat_db 1 1) = True
   \<and> unread_count (snd (mark_messages_as_read chat_db 1 1)) 1 1 = 0
   \<and> mark_messages_as_read (snd (mark_messages_as_read chat_db 1 1)) 1 1
       = (True, snd (mark_messages_as_read chat_db 1 1))
   \<and> \<not> is_participant chat_db 1 3
   \<and> mark_messages_as_read chat_db 1 3 = (False, chat_db)"
proof -
  have p: "is_participant chat_db 1 1" "\<not> is_participant chat_db 1 3"
    by (simp_all add: is_participant_def get_conversation_def chat_db_def chat_conversation_def)
  have u: "unread_count chat_db 1 1 = 2"
    by (simp add: unread_count_def chat_db_def chat_messages_def)
  show ?thesis
    using p u mark_messages_as_read_effect [of chat_db 1 1]
      mark_messages_as_read_effect [of chat_db 1 3]
    by blast
qed

section \<open>Listing conversations\<close>

lemma conversation_results_ids:
  "cvr_id ` set (conversation_results s u convs)
   = cv_id ` {c \<in> set convs. get_user s (other_user_id c u) \<noteq> None}"
  by (induction convs) (auto split: option.splits)

lemma conversation_results_length:
  "length (conversation_results s u convs)
   = length (filter (\<lambda>c. get_user s (other_user_id c u) \<noteq> None) convs)"
  by (induction convs) (auto split: option.splits)

text \<open>
  Claim C9: for a conversation row \<open>c\<close> with \<open>user_id\<close> as a participant (primary keys
  being unique), \<open>c\<close> appears in \<^verbatim>\<open>get_user_conversations\<close> exactly when the other
  participant has a user row. The list has one summary per such conversation, so it
  can be shorter than the list of conversation rows the user takes part in.
\<close>

theorem get_user_conversations_omits_missing_user:
  assumes "c \<in> set (conversations s)"
    and "cv_user1_id c = user_id \<or> cv_user2_id c = user_id"
    and "distinct (map cv_id (conversations s))"
  shows "(cv_id c \<in> cvr_id ` set (get_user_conversations s user_id)
            \<longleftrightarrow> get_user s (other_user_id c user_id) \<noteq> None)
       \<and> length (get_user_conversations s user_id)
           = length (filter (\<lambda>c. (cv_user1_id c = user_id \<or> cv_user2_id c = user_id)
                                  \<and> get_user s (other_user_id c user_id) \<noteq> None)
                       (conversations s))
       \<and> length (get_user_conversations s user_id)
           \<le> length (filter (\<lambda>c. cv_user1_id c = user_id \<or> cv_user2_id c = user_id)
                       (conversations s))"
proof -
  let ?mine = "filter (\<lambda>c. cv_user1_id c = user_id \<or> cv_user2_id c = user_id) (conversations s)"
  have inj: "inj_on cv_id (set (conversations s))"
    using assms(3) by (simp add: distinct_map)
  have mem: "c \<in> set ?mine" using assms(1,2) by simp
  have "cv_id c \<in> cvr_id ` set (get_user_conversations s user_id)
          \<longleftrightarrow> cv_id c \<in> cv_id ` {c \<in> set ?mine. get_user s (other_user_id c user_id) \<noteq> None}"
    by (simp only: get_user_conversations_def conversation_results_ids)
  also have "\<dots> \<longleftrightarrow> get_user s (other_user_id c user_id) \<noteq> None"
  proof
    assume "cv_id c \<in> cv_id ` {c \<in> set ?mine. get_user s (other_user_id c user_id) \<noteq> None}"
    then obtain c' where c': "c' \<in> set ?mine" "get_user s (other_user_id c' user_id) \<noteq> None"
      "cv_id c = cv_id c'" by blast
    from c'(1) have "c' \<in> set (conversations s)" by simp
    with inj assms(1) c'(3) have "c = c'" by (auto dest: inj_onD)
    with c'(2) show "get_user s (other_user_id c user_id) \<noteq> None" by simp
  next
    assume "get_user s (other_user_id c user_id) \<noteq> None"
    with mem show "cv_id c \<in> cv_id ` {c \<in> set ?mine. get_user s (other_user_id c user_id) \<noteq> None}"
      by blast
  qed
  finally have iff: "cv_id c \<in> cvr_id ` set (get_user_conversations s user_id)
            \<longleftrightarrow> get_user s (other_user_id c user_id) \<noteq> None" .
  have len: "length (get_user_conversations s user_id)
           = length (filter (\<lambda>c. (cv_user1_id c = user_id \<or> cv_user2_id c = user_id)
                                  \<and> get_user s (other_user_id c user_id) \<noteq> None)
                       (conversations s))"
    by (simp add: get_user_conversations_def conversation_results_length conj_commute)
  have le: "length (get_user_conversations s user_id) \<le> length ?mine"
    unfolding get_user_conversations_def conversation_results_length
    by (rule length_filter_le)
  from iff len le show ?thesis by (intro conjI)
qed

lemma orphan_db_conversations:
  "conversations orphan_db = [chat_conversation, orphan_conversation]"
  by (simp add: orphan_db_def)

theorem get_user_conversations_omits_missing_user_witness:
  "orphan_conversation \<in> set (conversations orphan_db)
   \<and> cv_user1_id orphan_conversation = 1
   \<and> distinct (map cv_id (conversations orphan_db))
   \<and> get_user orphan_db (other_user_id orphan_conversation 1) = None
   \<and> cv_id orphan_conversation \<notin> cvr_id ` set (get_user_conversations orphan_db 1)
   \<and> get_user orphan_db (other_user_id chat_conversation 1) \<noteq> None
   \<and> cv_id chat_conversation \<in> cvr_id ` set (get_user_conversations orphan_db 1)
   \<and> length (get_user_conversations orphan_db 1) = 1"
proof -
  have h: "orphan_conversation \<in> set (conversations orphan_db)"
    "cv_user1_id orphan_conversation = 1 \<or> cv_user2_id orphan_conversation = 1"
    "distinct (map cv_id (conversations orphan_db))"
    by (simp_all add: orphan_db_conversations orphan_conversation_def chat_conversation_def)
  have h': "chat_conversation \<in> set (conversations orphan_db)"
    "cv_user1_id chat_conversation = 1 \<or> cv_user2_id chat_conversation = 1"
    by (simp_all add: orphan_db_conversations chat_conversation_def)
  have u: "get_user orphan_db (other_user_id orphan_conversation 1) = None"
    "get_user orphan_db (other_user_id chat_conversation 1) \<noteq> None"
    "cv_user1_id orphan_conversation = 1"
    by (simp_all add: get_user_def other_user_id_def orphan_db_def chat_db_def example_db_def
        example_user_def orphan_conversation_def chat_conversation_def)
  have n: "length (filter (\<lambda>c. (cv_user1_id c = 1 \<or> cv_user2_id c = 1)
                                  \<and> get_user orphan_db (other_user_id c 1) \<noteq> None)
                       (conversations orphan_db)) = 1"
    using u by (simp add: orphan_db_conversations chat_conversation_def)
  show ?thesis
    using h u n get_user_conversations_omits_missing_user [OF h]
      get_user_conversations_omits_missing_user [OF h' h(3)]
    by simp
qed

section \<open>No contact request to oneself\<close>

lemma toggle_like_tables:
  "users (snd (toggle_like s u e t)) = users s"
  "daily_entries (snd (toggle_like s u e t)) = daily_entries s"
  "contact_requests (snd (toggle_like s u e t)) = contact_requests s"
  "conversations (snd (toggle_like s u e t)) = conversations s"
  "direct_messages (snd (toggle_like s u e t)) = direct_messages s"
  by (simp_all add: toggle_like_def split: option.splits)

lemma send_contact_request_tables:
  "users (snd (send_contact_request s u rd t)) = users s"
  "daily_entries (snd (send_contact_request s u rd t)) = daily_entries s"
  "reflection_likes (snd (send_contact_request s u rd t)) = reflection_likes s"
  "conversations (snd (send_contact_request s u rd t)) = conversations s"
  "direct_messages (snd (send_contact_request s u rd t)) = direct_messages s"
  by (simp_all add: send_contact_request_def Let_def split: option.splits)

lemma respond_tables:
  "users (snd (respond_to_contact_request s k u a t t')) = users s"
  "daily_entries (snd (respond_to_contact_request s k u a t t')) = daily_entries s"
  "reflection_likes (snd (respond_to_contact_request s k u a t t')) = reflection_likes s"
  "direct_messages (snd (respond_to_contact_request s k u a t t')) = direct_messages s"
  by (simp_all add: respond_to_contact_request_def Let_def create_conversation_other_tables
      split: option.splits)

lemma respond_requests:
  "\<exists>g. contact_requests (snd (respond_to_contact_request s k u a t t'))
        = map g (contact_requests s)
      \<and> (\<forall>r. cr_sender_id (g r) = cr_sender_id r \<and> cr_recipient_id (g r) = cr_recipient_id r
              \<and> cr_id (g r) = cr_id r)"
proof (cases "fst (respond_to_contact_request s k u a t t')")
  case None
  then have "snd (respond_to_contact_request s k u a t t') = s"
    by (auto simp: respond_to_contact_request_def Let_def split: option.splits if_splits)
  then show ?thesis by (intro exI [of _ "\<lambda>r. r"]) simp
next
  case (Some r')
  let ?g = "\<lambda>r. if cr_id r = k
             then r\<lparr>cr_status := (if a then ACCEPTED else DECLINED), cr_responded_at := Some t\<rparr>
             else r"
  from Some have "contact_requests (snd (respond_to_contact_request s k u a t t'))
        = map ?g (contact_requests s)"
    by (auto simp: respond_to_contact_request_def Let_def create_conversation_other_tables
        split: option.splits if_splits)
  then show ?thesis by (intro exI [of _ ?g]) simp
qed

lemma send_message_tables:
  "users (snd (send_message s u md t t')) = users s"
  "daily_entries (snd (send_message s u md t t')) = daily_entries s"
  "reflection_likes (snd (send_message s u md t t')) = reflection_likes s"
  "contact_requests (snd (send_message s u md t t')) = contact_requests s"
  by (simp_all add: send_message_def Let_def split: option.splits)

lemma mark_messages_as_read_tables:
  "users (snd (mark_messages_as_read s c u)) = users s"
  "daily_entries (snd (mark_messages_as_read s c u)) = daily_entries s"
  "reflection_likes (snd (mark_messages_as_read s c u)) = reflection_likes s"
  "contact_requests (snd (mark_messages_as_read s c u)) = contact_requests s"
  "conversations (snd (mark_messages_as_read s c u)) = conversations s"
  by (simp_all add: mark_messages_as_read_def split: option.splits)

lemma exec_daily_entries: "daily_entries (exec s c) = daily_entries s"
  by (cases c)
    (simp_all add: toggle_like_tables send_contact_request_tables respond_tables
      send_message_tables mark_messages_as_read_tables)

lemma get_entry_exec: "get_entry (exec s c) k = get_entry s k"
  by (simp add: get_entry_def exec_daily_entries)

lemma toggle_like_likes:
  "l \<in> set (reflection_likes (snd (toggle_like s u e t))) \<Longrightarrow>
   l \<in> set (reflection_likes s)
   \<or> (l_user_id l = u \<and> l_daily_entry_id l = e
      \<and> (\<exists>entry. get_entry s e = Some entry \<and> e_author_id entry \<noteq> u))"
  by (auto simp: toggle_like_def split: option.splits if_splits)

lemma no_self_like_exec: "no_self_like s \<Longrightarrow> no_self_like (exec s c)"
proof (cases c)
  case (ToggleLike u e t)
  assume inv: "no_self_like s"
  show ?thesis
    unfolding no_self_like_def
  proof (intro ballI allI impI)
    fix l entry
    assume l: "l \<in> set (reflection_likes (exec s c))"
      and e: "get_entry (exec s c) (l_daily_entry_id l) = Some entry"
    from e have e': "get_entry s (l_daily_entry_id l) = Some entry"
      by (simp add: get_entry_exec)
    from l ToggleLike toggle_like_likes [of l s u e t]
    consider "l \<in> set (reflection_likes s)"
      | "l_user_id l = u" "l_daily_entry_id l = e"
        "\<exists>entry. get_entry s e = Some entry \<and> e_author_id entry \<noteq> u"
      by auto
    then show "e_author_id entry \<noteq> l_user_id l"
    proof cases
      case 1
      with inv e' show ?thesis by (auto simp: no_self_like_def)
    next
      case 2
      with e' show ?thesis by auto
    qed
  qed
next
  case (SendContactRequest u rd t)
  assume "no_self_like s"
  then show ?thesis
    using SendContactRequest
    by (simp add: no_self_like_def get_entry_def send_contact_request_tables)
next
  case (RespondToContactRequest k u a t t')
  assume "no_self_like s"
  then show ?thesis
    using RespondToContactRequest
    by (simp add: no_self_like_def get_entry_def respond_tables)
next
  case (SendMessage u md t t')
  assume "no_self_like s"
  then show ?thesis
    using SendMessage
    by (simp add: no_self_like_def get_entry_def send_message_tables)
next
  case (MarkMessagesAsRead k u)
  assume "no_self_like s"
  then show ?thesis
    using MarkMessagesAsRead
    by (simp add: no_self_like_def get_entry_def mark_messages_as_read_tables)
qed

lemma send_contact_request_requests:
  "r \<in> set (contact_requests (snd (send_contact_request s u rd t))) \<Longrightarrow>
   r \<in> set (contact_requests s)
   \<or> (cr_sender_id r = u
      \<and> (\<exists>entry l. get_entry s (rc_daily_entry_id rd) = Some entry
            \<and> e_author_id entry = cr_recipient_id r
            \<and> l \<in> set (reflection_likes s) \<and> l_user_id l = u
            \<and> l_daily_entry_id l = rc_daily_entry_id rd))"
proof -
  assume r: "r \<in> set (contact_requests (snd (send_contact_request s u rd t)))"
  from send_contact_request_cases [of s u rd t]
  consider "snd (send_contact_request s u rd t) = s"
    | entry where "get_entry s (rc_daily_entry_id rd) = Some entry"
        "e_author_id entry = rc_recipient_id rd"
        "user_has_liked_entry s u (rc_daily_entry_id rd)"
        "contact_requests (snd (send_contact_request s u rd t)) = contact_requests s @
               [\<lparr>cr_id = next_id (map cr_id (contact_requests s)), cr_sender_id = u,
                 cr_recipient_id = rc_recipient_id rd, cr_daily_entry_id = rc_daily_entry_id rd,
                 cr_message = rc_message rd, cr_status = PENDING, cr_created_at = t,
                 cr_responded_at = None\<rparr>]"
    by fastforce
  then show ?thesis
  proof cases
    case 1
    with r show ?thesis by simp
  next
    case 2
    from 2(3) obtain l where "find_like s u (rc_daily_entry_id rd) = Some l"
      by (auto simp: user_has_liked_entry_def)
    then have "l \<in> set (reflection_likes s)" "l_user_id l = u"
      "l_daily_entry_id l = rc_daily_entry_id rd"
      using find_in_set [of _ "reflection_likes s" l] by (auto simp: find_like_def)
    with r 2 show ?thesis by auto
  qed
qed

lemma no_self_request_exec:
  assumes "no_self_like s" "no_self_request s"
  shows "no_self_request (exec s c)"
proof (cases c)
  case (ToggleLike u e t)
  with assms(2) show ?thesis by (simp add: no_self_request_def toggle_like_tables)
next
  case (SendContactRequest u rd t)
  show ?thesis
    unfolding no_self_request_def
  proof
    fix r assume "r \<in> set (contact_requests (exec s c))"
    with SendContactRequest send_contact_request_requests [of r s u rd t]
    consider "r \<in> set (contact_requests s)"
      | entry l where "cr_sender_id r = u" "get_entry s (rc_daily_entry_id rd) = Some entry"
          "e_author_id entry = cr_recipient_id r" "l \<in> set (reflection_likes s)"
          "l_user_id l = u" "l_daily_entry_id l = rc_daily_entry_id rd"
      by auto
    then show "cr_sender_id r \<noteq> cr_recipient_id r"
    proof cases
      case 1
      with assms(2) show ?thesis by (simp add: no_self_request_def)
    next
      case 2
      with assms(1) show ?thesis by (auto simp: no_self_like_def)
    qed
  qed
next
  case (RespondToContactRequest k u a t t')
  from respond_requests [of s k u a t t'] obtain g where
    g: "contact_requests (snd (respond_to_contact_request s k u a t t')) = map g (contact_requests s)"
      "\<And>r. cr_sender_id (g r) = cr_sender_id r" "\<And>r. cr_recipient_id (g r) = cr_recipient_id r"
    by auto
  with assms(2) RespondToContactRequest show ?thesis
    by (auto simp: no_self_request_def)
next
  case (SendMessage u md t t')
  with assms(2) show ?thesis by (simp add: no_self_request_def send_message_tables)
next
  case (MarkMessagesAsRead k u)
  with assms(2) show ?thesis by (simp add: no_self_request_def mark_messages_as_read_tables)
qed

lemma no_self_run:
  "no_self_like s \<Longrightarrow> no_self_request s \<Longrightarrow>
   no_self_like (run s commands) \<and> no_self_request (run s commands)"
  unfolding run_def
  by (induction commands arbitrary: s) (simp_all add: no_self_like_exec no_self_request_exec)

text \<open>
  Claim C10: starting from a database without likes and contact requests, whatever
  sequence of service calls is run (\<^verbatim>\<open>toggle_like\<close> and
  \<^verbatim>\<open>send_contact_request\<close>, and the three other writing calls as well), no
  contact request row has its sender as its recipient, and no like row pairs an entry
  with its author (\<open>no_self_like\<close>). The second is the reason for the first, as the
  claim says: a request needs the sender's like on the entry, and its recipient is the
  entry's author.
\<close>

theorem no_self_contact_request:
  assumes "reflection_likes s0 = []" and "contact_requests s0 = []"
  shows "(\<forall>r \<in> set (contact_requests (run s0 commands)). cr_sender_id r \<noteq> cr_recipient_id r)
       \<and> no_self_like (run s0 commands)"
proof -
  have "no_self_like s0" "no_self_request s0"
    using assms by (simp_all add: no_self_like_def no_self_request_def)
  then have "no_self_like (run s0 commands) \<and> no_self_request (run s0 commands)"
    by (rule no_self_run)
  then show ?thesis by (simp add: no_self_request_def)
qed

lemma run_example_commands: "run example_db example_commands = pending_db"
proof -
  have 1: "exec example_db (ToggleLike 2 1 5) = liked_db"
    by (simp add: liked_db_def)
  have 2: "exec liked_db (SendContactRequest 2
             \<lparr>rc_recipient_id = 1, rc_daily_entry_id = 1, rc_message = ''hello''\<rparr> 6) = pending_db"
    by (simp add: pending_db_def)
  have 3: "exec pending_db (ToggleLike 1 1 7) = pending_db"
    by (simp add: pending_db_eq liked_db_eq toggle_like_def example_db_def example_entry_def
        get_entry_def)
  have 4: "exec pending_db (SendContactRequest 1
             \<lparr>rc_recipient_id = 1, rc_daily_entry_id = 1, rc_message = ''me''\<rparr> 8) = pending_db"
    by (simp add: pending_db_eq liked_db_eq send_contact_request_def example_db_def
        example_entry_def get_entry_def user_has_liked_entry_def find_like_def)
  show ?thesis
    by (simp only: run_def example_commands_def foldl_Cons foldl_Nil 1 2 3 4)
qed

theorem no_self_contact_request_witness:
  "reflection_likes example_db = [] \<and> contact_requests example_db = []
   \<and> map (\<lambda>r. (cr_sender_id r, cr_recipient_id r))
         (contact_requests (run example_db example_commands)) = [(2, 1)]
   \<and> list_all (\<lambda>r. cr_sender_id r \<noteq> cr_recipient_id r)
         (contact_requests (run example_db example_commands))"
proof -
  have h: "reflection_likes example_db = []" "contact_requests example_db = []"
    by (simp_all add: example_db_def)
  have c: "map (\<lambda>r. (cr_sender_id r, cr_recipient_id r))
         (contact_requests (run example_db example_commands)) = [(2, 1)]"
    by (simp add: run_example_commands pending_db_eq)
  show ?thesis
    using h c no_self_contact_request [OF h, of example_commands]
    by (simp add: list_all_iff)
qed

section \<open>Reading a conversation\<close>

lemma find_distinct_key:
  "distinct (map f xs) \<Longrightarrow> x \<in> set xs \<Longrightarrow> find (\<lambda>y. f y = f x) xs = Some x"
proof (induction xs)
  case Nil
  then show ?case by simp
next
  case (Cons a xs)
  then show ?case by (auto simp: image_iff)
qed

lemma filter_distinct_key:
  "distinct (map f xs) \<Longrightarrow> find (\<lambda>y. f y = k) xs = Some x \<Longrightarrow> filter (\<lambda>y. f y = k) xs = [x]"
proof (induction xs)
  case Nil
  then show ?case by simp
next
  case (Cons a xs)
  show ?case
  proof (cases "f a = k")
    case True
    with Cons.prems have "a = x" "\<forall>y\<in>set xs. f y \<noteq> k" by (auto simp: image_iff)
    then have "filter (\<lambda>y. f y = k) xs = []" by (simp add: filter_empty_conv)
    with True \<open>a = x\<close> show ?thesis by simp
  next
    case False
    with Cons show ?thesis by simp
  qed
qed

lemma sorted_neg_rev:
  "sorted (map (\<lambda>x. - f x) xs) \<Longrightarrow> sorted (map f (rev xs))"
  for f :: "'a \<Rightarrow> int"
  by (induction xs) (auto simp: sorted_append)

lemma sorted_take_drop:
  assumes "sorted (map g xs)" "a \<in> set (take n xs)" "b \<in> set (drop n xs)"
  shows "g a \<le> g b"
proof -
  have "sorted (map g (take n xs) @ map g (drop n xs))"
    using assms(1) by (simp flip: map_append)
  with assms(2,3) show ?thesis by (auto simp: sorted_append)
qed

lemma message_rows_fst:
  assumes "distinct (map u_id (users s))"
    and "\<forall>m \<in> set (direct_messages s).
           dm_conversation_id m = cid \<longrightarrow> get_user s (dm_sender_id m) \<noteq> None"
  shows "map fst (message_rows s cid)
         = filter (\<lambda>m. dm_conversation_id m = cid) (direct_messages s)"
proof -
  have one: "map fst (map (\<lambda>u. (m, u)) (filter (\<lambda>u. u_id u = dm_sender_id m) (users s))) = [m]"
    if "m \<in> set (filter (\<lambda>m. dm_conversation_id m = cid) (direct_messages s))" for m
  proof -
    from that assms(2) obtain u where "find (\<lambda>u. u_id u = dm_sender_id m) (users s) = Some u"
      by (auto simp: get_user_def)
    with assms(1) have "filter (\<lambda>u. u_id u = dm_sender_id m) (users s) = [u]"
      by (rule filter_distinct_key)
    then show ?thesis by simp
  qed
  have "map fst (concat (map h ms)) = ms"
    if "\<And>m. m \<in> set ms \<Longrightarrow> map fst (h m) = [m]" for ms and h :: "DirectMessage \<Rightarrow> (DirectMessage \<times> User) list"
    using that by (induction ms) simp_all
  from this [of "filter (\<lambda>m. dm_conversation_id m = cid) (direct_messages s)"
      "\<lambda>m. map (\<lambda>u. (m, u)) (filter (\<lambda>u. u_id u = dm_sender_id m) (users s))"] one
  show ?thesis unfolding message_rows_def by blast
qed

lemma message_rows_user:
  assumes "distinct (map u_id (users s))" and "(m, u) \<in> set (message_rows s cid)"
  shows "get_user s (dm_sender_id m) = Some u"
proof -
  from assms(2) have "u \<in> set (users s)" "u_id u = dm_sender_id m"
    by (auto simp: message_rows_def)
  with find_distinct_key [OF assms(1), of u] show ?thesis
    by (simp add: get_user_def)
qed

lemma get_conversation_messages_eq:
  "is_participant s cid uid \<Longrightarrow>
   get_conversation_messages s cid uid limit
   = map message_response (rev (take limit (order_by_created_desc (message_rows s cid))))"
  by (auto simp: get_conversation_messages_def is_participant_def rev_map split: option.splits)

lemma get_conversation_messages_rejected:
  "\<not> is_participant s cid uid \<Longrightarrow> get_conversation_messages s cid uid limit = []"
  by (auto simp: get_conversation_messages_def is_participant_def split: option.splits)

lemma created_of_response:
  "map mr_created_at (map message_response rows) = map (\<lambda>r. dm_created_at (fst r)) rows"
  by (simp add: message_response_def split_beta)

lemma order_by_created_desc_sorted:
  "sorted (map (\<lambda>r. - dm_created_at (fst r)) (order_by_created_desc rows))"
proof -
  have eq: "(\<lambda>r. - dm_created_at (fst r)) = (\<lambda>(m, u). - dm_created_at m)"
    by (simp add: fun_eq_iff)
  show ?thesis
    unfolding order_by_created_desc_def eq by (rule sorted_sort_key)
qed

lemma kept_sorted:
  "sorted (map (\<lambda>r. dm_created_at (fst r)) (rev (take limit (order_by_created_desc rows))))"
proof -
  have "sorted (map (\<lambda>r. - dm_created_at (fst r)) (take limit (order_by_created_desc rows)))"
    using order_by_created_desc_sorted [of rows] by (simp add: take_map [symmetric])
  then show ?thesis by (rule sorted_neg_rev)
qed

text \<open>
  Claim C7: for a requester who is not a participant, and for an unknown conversation
  id, \<^verbatim>\<open>get_conversation_messages\<close> returns the empty list. Whatever it returns is
  in ascending \<^verbatim>\<open>created_at\<close> order. For a participant, in a database whose user ids
  are unique and where every sender of a message of the conversation has a user row
  (the primary key and the foreign key that \<^verbatim>\<open>models.py\<close> declares, which the inner
  join with the user table relies on; see \<open>user_keys_resolve_run\<close>), the result is the most recent \<open>limit\<close>
  messages of the conversation: the conversation's messages split into the rows
  \<open>kept\<close>, which the result renders in order, each with its sender's user row, and
  the rows \<open>dropped\<close>; \<open>kept\<close> has \<open>limit\<close> rows, or all of them if there are fewer,
  and no dropped message is newer than a kept one. Nothing is assumed about the order
  in which the messages were inserted or about who sent them.
\<close>

theorem get_conversation_messages_recent_ascending:
  "(\<not> is_participant s conversation_id user_id \<longrightarrow>
      get_conversation_messages s conversation_id user_id limit = [])
   \<and> sorted (map mr_created_at (get_conversation_messages s conversation_id user_id limit))
   \<and> (is_participant s conversation_id user_id \<longrightarrow>
        distinct (map u_id (users s)) \<longrightarrow>
        (\<forall>m \<in> set (direct_messages s).
           dm_conversation_id m = conversation_id \<longrightarrow> get_user s (dm_sender_id m) \<noteq> None) \<longrightarrow>
        (\<exists>(kept :: (DirectMessage \<times> User) list) (dropped :: (DirectMessage \<times> User) list).
           get_conversation_messages s conversation_id user_id limit = map message_response kept
           \<and> mset (map fst kept) + mset (map fst dropped)
               = mset (filter (\<lambda>m. dm_conversation_id m = conversation_id) (direct_messages s))
           \<and> (\<forall>r \<in> set kept. get_user s (dm_sender_id (fst r)) = Some (snd r))
           \<and> sorted (map (\<lambda>r. dm_created_at (fst r)) kept)
           \<and> length kept
               = min limit (length (filter (\<lambda>m. dm_conversation_id m = conversation_id)
                                      (direct_messages s)))
           \<and> (\<forall>a \<in> set dropped. \<forall>b \<in> set kept.
                 dm_created_at (fst a) \<le> dm_created_at (fst b))))"
  (is "(\<not> ?P \<longrightarrow> ?A) \<and> ?B \<and> (?P \<longrightarrow> ?pk \<longrightarrow> ?fk \<longrightarrow> ?C)")
proof (intro conjI impI)
  assume "\<not> ?P"
  then show ?A by (rule get_conversation_messages_rejected)
next
  show ?B
  proof (cases ?P)
    case True
    then show ?thesis
      by (simp only: get_conversation_messages_eq created_of_response kept_sorted)
  next
    case False
    then show ?thesis by (simp add: get_conversation_messages_rejected)
  qed
next
  assume part: ?P and pk: ?pk and fk: ?fk
  let ?rows = "message_rows s conversation_id"
  let ?sorted = "order_by_created_desc ?rows"
  let ?kept = "rev (take limit ?sorted)"
  let ?dropped = "drop limit ?sorted"
  let ?M = "filter (\<lambda>m. dm_conversation_id m = conversation_id) (direct_messages s)"
  have fst_rows: "map fst ?rows = ?M"
    using pk fk by (rule message_rows_fst)
  have set_sorted: "set ?sorted = set ?rows" and mset_sorted: "mset ?sorted = mset ?rows"
    and len_sorted: "length ?sorted = length ?rows"
    by (simp_all add: order_by_created_desc_def)
  have c1: "get_conversation_messages s conversation_id user_id limit = map message_response ?kept"
    using part by (rule get_conversation_messages_eq)
  have "mset (take limit ?sorted) + mset ?dropped = mset ?rows"
    unfolding mset_sorted [symmetric] mset_append [symmetric] by (simp only: append_take_drop_id)
  then have "image_mset fst (mset (take limit ?sorted) + mset ?dropped) = image_mset fst (mset ?rows)"
    by (rule arg_cong)
  then have "mset (map fst ?kept) + mset (map fst ?dropped) = mset (map fst ?rows)"
    by (simp only: mset_map mset_rev image_mset_union)
  then have c2: "mset (map fst ?kept) + mset (map fst ?dropped) = mset ?M"
    by (simp only: fst_rows)
  have c3: "\<forall>r \<in> set ?kept. get_user s (dm_sender_id (fst r)) = Some (snd r)"
  proof
    fix r assume "r \<in> set ?kept"
    then have "r \<in> set ?sorted" by (auto dest: in_set_takeD)
    then have "(fst r, snd r) \<in> set ?rows" by (simp add: set_sorted)
    with pk show "get_user s (dm_sender_id (fst r)) = Some (snd r)"
      by (rule message_rows_user)
  qed
  have c4: "sorted (map (\<lambda>r. dm_created_at (fst r)) ?kept)"
    by (rule kept_sorted)
  have "length ?rows = length ?M"
    using fst_rows by (metis length_map)
  then have c5: "length ?kept = min limit (length ?M)"
    by (simp add: len_sorted min.commute)
  have c6: "\<forall>a \<in> set ?dropped. \<forall>b \<in> set ?kept. dm_created_at (fst a) \<le> dm_created_at (fst b)"
  proof (intro ballI)
    fix a b assume a: "a \<in> set ?dropped" and b: "b \<in> set ?kept"
    from b have b': "b \<in> set (take limit ?sorted)" by simp
    have "- dm_created_at (fst b) \<le> - dm_created_at (fst a)"
      using order_by_created_desc_sorted [of ?rows] b' a
      by (rule sorted_take_drop [where g = "\<lambda>r. - dm_created_at (fst r)"])
    then show "dm_created_at (fst a) \<le> dm_created_at (fst b)" by simp
  qed
  show ?C
    by (intro exI conjI) (rule c1 c2 c3 c4 c5 c6)+
qed

lemma chat_db_message_rows:
  "message_rows chat_db 1 =
     [(chat_messages ! 0, example_user 2 ''bob''), (chat_messages ! 1, example_user 1 ''alice''),
      (chat_messages ! 2, example_user 2 ''bob'')]"
  by (simp add: message_rows_def chat_db_def chat_messages_def example_db_def example_user_def)

lemma chat_db_recent_two:
  "map mr_message_text (get_conversation_messages chat_db 1 1 2) = [''there'', ''hello'']"
  "map mr_created_at (get_conversation_messages chat_db 1 1 2) = [11, 12]"
proof -
  have p: "is_participant chat_db 1 1"
    by (simp add: is_participant_def get_conversation_def chat_db_def chat_conversation_def)
  have "order_by_created_desc (message_rows chat_db 1) =
     [(chat_messages ! 1, example_user 1 ''alice''), (chat_messages ! 2, example_user 2 ''bob''),
      (chat_messages ! 0, example_user 2 ''bob'')]"
    by (simp add: chat_db_message_rows order_by_created_desc_def chat_messages_def)
  then have "get_conversation_messages chat_db 1 1 2 =
     map message_response
       [(chat_messages ! 2, example_user 2 ''bob''), (chat_messages ! 1, example_user 1 ''alice'')]"
    by (simp add: get_conversation_messages_eq [OF p] numeral_2_eq_2)
  then show "map mr_message_text (get_conversation_messages chat_db 1 1 2) = [''there'', ''hello'']"
    "map mr_created_at (get_conversation_messages chat_db 1 1 2) = [11, 12]"
    by (simp_all add: message_response_def chat_messages_def)
qed

theorem get_conversation_messages_recent_ascending_witness:
  "is_participant chat_db 1 1
   \<and> distinct (map u_id (users chat_db))
   \<and> list_all (\<lambda>m. get_user chat_db (dm_sender_id m) \<noteq> None)
         (filter (\<lambda>m. dm_conversation_id m = 1) (direct_messages chat_db))
   \<and> map mr_message_text (get_conversation_messages chat_db 1 1 2) = [''there'', ''hello'']
   \<and> map mr_created_at (get_conversation_messages chat_db 1 1 2) = [11, 12]
   \<and> sorted (map mr_created_at (get_conversation_messages chat_db 1 1 2))
   \<and> (\<exists>(kept :: (DirectMessage \<times> User) list) (dropped :: (DirectMessage \<times> User) list).
         get_conversation_messages chat_db 1 1 2 = map message_response kept
         \<and> mset (map fst kept) + mset (map fst dropped)
             = mset (filter (\<lambda>m. dm_conversation_id m = 1) (direct_messages chat_db))
         \<and> length kept = 2
         \<and> (\<forall>a \<in> set dropped. \<forall>b \<in> set kept.
               dm_created_at (fst a) \<le> dm_created_at (fst b)))
   \<and> \<not> is_participant chat_db 1 3
   \<and> get_conversation_messages chat_db 1 3 2 = []
   \<and> \<not> is_participant chat_db 7 1
   \<and> get_conversation_messages chat_db 7 1 2 = []"
proof -
  have p: "is_participant chat_db 1 1" "\<not> is_participant chat_db 1 3"
    "\<not> is_participant chat_db 7 1"
    by (simp_all add: is_participant_def get_conversation_def chat_db_def chat_conversation_def)
  have pk: "distinct (map u_id (users chat_db))"
    by (simp add: chat_db_def example_db_def example_user_def)
  have fk: "\<forall>m \<in> set (direct_messages chat_db).
         dm_conversation_id m = 1 \<longrightarrow> get_user chat_db (dm_sender_id m) \<noteq> None"
    by (simp add: chat_db_def chat_messages_def example_db_def example_user_def get_user_def)
  have n: "min 2 (length (filter (\<lambda>m. dm_conversation_id m = 1) (direct_messages chat_db))) = 2"
    by (simp add: chat_db_def chat_messages_def)
  from get_conversation_messages_recent_ascending [of chat_db 1 1 2] p(1) pk fk
  obtain kept dropped :: "(DirectMessage \<times> User) list" where
    "get_conversation_messages chat_db 1 1 2 = map message_response kept"
    "mset (map fst kept) + mset (map fst dropped)
             = mset (filter (\<lambda>m. dm_conversation_id m = 1) (direct_messages chat_db))"
    "length kept = min 2 (length (filter (\<lambda>m. dm_conversation_id m = 1) (direct_messages chat_db)))"
    "\<forall>a \<in> set dropped. \<forall>b \<in> set kept. dm_created_at (fst a) \<le> dm_created_at (fst b)"
    by blast
  then have ex: "\<exists>(kept :: (DirectMessage \<times> User) list) (dropped :: (DirectMessage \<times> User) list).
         get_conversation_messages chat_db 1 1 2 = map message_response kept
         \<and> mset (map fst kept) + mset (map fst dropped)
             = mset (filter (\<lambda>m. dm_conversation_id m = 1) (direct_messages chat_db))
         \<and> length kept = 2
         \<and> (\<forall>a \<in> set dropped. \<forall>b \<in> set kept.
               dm_created_at (fst a) \<le> dm_created_at (fst b))"
    unfolding n by blast
  have s: "sorted (map mr_created_at (get_conversation_messages chat_db 1 1 2))"
    using get_conversation_messages_recent_ascending [of chat_db 1 1 2] by blast
  have r: "get_conversation_messages chat_db 1 3 2 = []"
    "get_conversation_messages chat_db 7 1 2 = []"
    using get_conversation_messages_recent_ascending [of chat_db 1 3 2]
      get_conversation_messages_recent_ascending [of chat_db 7 1 2] p(2,3) by blast+
  have fk': "list_all (\<lambda>m. get_user chat_db (dm_sender_id m) \<noteq> None)
         (filter (\<lambda>m. dm_conversation_id m = 1) (direct_messages chat_db))"
    using fk by (simp add: list_all_iff)
  from p pk fk' chat_db_recent_two ex s r show ?thesis by (intro conjI)
qed

section \<open>Accepting a request creates the conversation\<close>

lemma create_conversation_conversations:
  "conversations (snd (create_conversation s a b t)) =
     (case find (\<lambda>c. cv_user1_id c = min a b \<and> cv_user2_id c = max a b) (conversations s) of
        Some existing \<Rightarrow> conversations s
      | None \<Rightarrow> conversations s @
          [\<lparr>cv_id = next_id (map cv_id (conversations s)), cv_user1_id = min a b,
            cv_user2_id = max a b, cv_status = ACTIVE, cv_created_at = t,
            cv_last_message_at = None\<rparr>])"
proof (cases "a > b")
  case True
  then have "min a b = b" "max a b = a" by simp_all
  with True show ?thesis
    by (simp add: create_conversation_def Let_def split: option.splits)
next
  case False
  then have "min a b = a" "max a b = b" by simp_all
  with False show ?thesis
    by (simp add: create_conversation_def Let_def split: option.splits)
qed

lemma respond_accept_conversations:
  assumes "get_request s k = Some r" and "cr_recipient_id r = u"
  shows "conversations (snd (respond_to_contact_request s k u True t t'))
         = (case find (\<lambda>c. cv_user1_id c = min (cr_sender_id r) u
                            \<and> cv_user2_id c = max (cr_sender_id r) u) (conversations s) of
              Some existing \<Rightarrow> conversations s
            | None \<Rightarrow> conversations s @
                [\<lparr>cv_id = next_id (map cv_id (conversations s)),
                  cv_user1_id = min (cr_sender_id r) u, cv_user2_id = max (cr_sender_id r) u,
                  cv_status = ACTIVE, cv_created_at = t', cv_last_message_at = None\<rparr>])"
  using assms
  by (simp add: respond_to_contact_request_def Let_def create_conversation_conversations
      split: option.splits)

lemma between_canonical:
  "cv_user1_id c \<le> cv_user2_id c \<Longrightarrow>
   between a b c \<longleftrightarrow> (cv_user1_id c, cv_user2_id c) = (min a b, max a b)"
  by (auto simp: between_def min_def max_def)

lemma filter_between_canonical:
  assumes "\<forall>c \<in> set cs. cv_user1_id c \<le> cv_user2_id c"
  shows "filter (between a b) cs
         = filter (\<lambda>c. (cv_user1_id c, cv_user2_id c) = (min a b, max a b)) cs"
  using assms by (intro filter_cong) (simp_all add: between_canonical)

text \<open>
  Claim C2: let a pending request be addressed to \<open>recipient_id\<close>, in a database whose
  conversation rows are in canonical order with one row per pair (the engine keeps
  this, see \<open>store_constraints_run\<close>) and in which sender and recipient have user rows
  (the foreign keys of the request, kept when calls are made by registered users, see
  \<open>user_keys_resolve_run\<close>). After the recipient accepts, exactly one
  conversation row is between sender and recipient; it stores the lower user id first;
  its id is among the conversations that \<^verbatim>\<open>get_user_conversations\<close> lists for the
  sender and among those it lists for the recipient; and if a conversation between
  the two existed before (from an earlier accepted request), the conversation table is
  unchanged: the row is reused and no duplicate is created.
\<close>

theorem accept_creates_one_conversation:
  assumes req: "get_request s request_id = Some request"
    and pend: "cr_status request = PENDING"
    and rcpt: "cr_recipient_id request = recipient_id"
    and canon: "conversations_canonical s"
    and su: "get_user s (cr_sender_id request) \<noteq> None"
    and ru: "get_user s recipient_id \<noteq> None"
  shows "\<exists>c. filter (between (cr_sender_id request) recipient_id)
               (conversations (snd (respond_to_contact_request s request_id recipient_id True
                                      now conv_now))) = [c]
           \<and> cv_user1_id c = min (cr_sender_id request) recipient_id
           \<and> cv_user2_id c = max (cr_sender_id request) recipient_id
           \<and> cv_id c \<in> cvr_id ` set (get_user_conversations
                 (snd (respond_to_contact_request s request_id recipient_id True now conv_now))
                 (cr_sender_id request))
           \<and> cv_id c \<in> cvr_id ` set (get_user_conversations
                 (snd (respond_to_contact_request s request_id recipient_id True now conv_now))
                 recipient_id)
           \<and> (filter (between (cr_sender_id request) recipient_id) (conversations s) \<noteq> [] \<longrightarrow>
                conversations (snd (respond_to_contact_request s request_id recipient_id True
                                      now conv_now)) = conversations s)
           \<and> conversations_canonical
                (snd (respond_to_contact_request s request_id recipient_id True now conv_now))"
proof -
  let ?a = "cr_sender_id request"
  let ?b = "recipient_id"
  let ?s' = "snd (respond_to_contact_request s request_id recipient_id True now conv_now)"
  let ?key = "\<lambda>c. (cv_user1_id c, cv_user2_id c)"
  let ?new = "\<lparr>cv_id = next_id (map cv_id (conversations s)),
                  cv_user1_id = min ?a ?b, cv_user2_id = max ?a ?b,
                  cv_status = ACTIVE, cv_created_at = conv_now, cv_last_message_at = None\<rparr>"
  have ord: "\<forall>c \<in> set (conversations s). cv_user1_id c \<le> cv_user2_id c"
    and dist: "distinct (map ?key (conversations s))"
    using canon by (simp_all add: conversations_canonical_def)
  have users': "users ?s' = users s"
    by (rule respond_tables)
  have convs': "conversations ?s'
         = (case find (\<lambda>c. ?key c = (min ?a ?b, max ?a ?b)) (conversations s) of
              Some existing \<Rightarrow> conversations s
            | None \<Rightarrow> conversations s @ [?new])"
    using respond_accept_conversations [OF req rcpt, of now conv_now] by simp
  have main: "\<exists>c. filter (between ?a ?b) (conversations ?s') = [c]
           \<and> ?key c = (min ?a ?b, max ?a ?b)
           \<and> (filter (between ?a ?b) (conversations s) \<noteq> [] \<longrightarrow>
                conversations ?s' = conversations s)
           \<and> conversations_canonical ?s'"
  proof (cases "find (\<lambda>c. ?key c = (min ?a ?b, max ?a ?b)) (conversations s)")
    case (Some existing)
    then have same: "conversations ?s' = conversations s"
      by (simp add: convs')
    from dist Some have "filter (\<lambda>c. ?key c = (min ?a ?b, max ?a ?b)) (conversations s) = [existing]"
      by (rule filter_distinct_key)
    then have "filter (between ?a ?b) (conversations s) = [existing]"
      by (simp only: filter_between_canonical [OF ord])
    moreover have "?key existing = (min ?a ?b, max ?a ?b)"
      using find_in_set [OF Some] by simp
    moreover have "conversations_canonical ?s'"
      using canon same by (simp add: conversations_canonical_def)
    ultimately show ?thesis using same by simp
  next
    case None
    then have app: "conversations ?s' = conversations s @ [?new]"
      by (simp add: convs')
    from None have none: "\<forall>c \<in> set (conversations s). ?key c \<noteq> (min ?a ?b, max ?a ?b)"
      by (simp add: find_None_iff)
    then have "filter (\<lambda>c. ?key c = (min ?a ?b, max ?a ?b)) (conversations s) = []"
      by (simp add: filter_empty_conv)
    then have old: "filter (between ?a ?b) (conversations s) = []"
      by (simp only: filter_between_canonical [OF ord])
    have bnew: "between ?a ?b ?new"
      by (simp add: between_def min_def max_def)
    have "filter (between ?a ?b) (conversations ?s') = [?new]"
      using old bnew by (simp add: app)
    moreover have "conversations_canonical ?s'"
      using ord dist none by (auto simp: conversations_canonical_def app)
    ultimately show ?thesis using old by simp
  qed
  then obtain c where c: "filter (between ?a ?b) (conversations ?s') = [c]"
    "cv_user1_id c = min ?a ?b" "cv_user2_id c = max ?a ?b"
    "filter (between ?a ?b) (conversations s) \<noteq> [] \<longrightarrow> conversations ?s' = conversations s"
    "conversations_canonical ?s'"
    by auto
  have "c \<in> set (filter (between ?a ?b) (conversations ?s'))"
    by (simp only: c(1) list.set_intros)
  then have cin: "c \<in> set (conversations ?s')"
    by simp
  have seen: "cv_id c \<in> cvr_id ` set (get_user_conversations ?s' u)"
    if u: "u = ?a \<or> u = ?b" for u
  proof -
    have part: "cv_user1_id c = u \<or> cv_user2_id c = u"
      using u c(2,3) by (auto simp: min_def max_def)
    have "other_user_id c u = ?a \<or> other_user_id c u = ?b"
      using c(2,3) by (auto simp: other_user_id_def min_def max_def)
    then have "get_user ?s' (other_user_id c u) \<noteq> None"
      using su ru by (auto simp: get_user_def users')
    with cin part show ?thesis
      unfolding get_user_conversations_def conversation_results_ids by auto
  qed
  from seen [of ?a] seen [of ?b] c show ?thesis by blast
qed

theorem accept_creates_one_conversation_witness:
  "get_request pending_db 1 =
     Some \<lparr>cr_id = 1, cr_sender_id = 2, cr_recipient_id = 1, cr_daily_entry_id = 1,
           cr_message = ''hello'', cr_status = PENDING, cr_created_at = 6,
           cr_responded_at = None\<rparr>
   \<and> conversations_canonical pending_db
   \<and> get_user pending_db 2 \<noteq> None \<and> get_user pending_db 1 \<noteq> None
   \<and> (\<exists>c. filter (between 2 1) (conversations accepted_db) = [c]
          \<and> cv_user1_id c = 1 \<and> cv_user2_id c = 2
          \<and> cv_id c \<in> cvr_id ` set (get_user_conversations accepted_db 2)
          \<and> cv_id c \<in> cvr_id ` set (get_user_conversations accepted_db 1))"
proof -
  let ?r = "\<lparr>cr_id = 1, cr_sender_id = 2, cr_recipient_id = 1, cr_daily_entry_id = 1,
           cr_message = ''hello'', cr_status = PENDING, cr_created_at = 6,
           cr_responded_at = None\<rparr>"
  have h: "get_request pending_db 1 = Some ?r" "cr_status ?r = PENDING"
    "cr_recipient_id ?r = 1" "conversations_canonical pending_db"
    "get_user pending_db (cr_sender_id ?r) \<noteq> None" "get_user pending_db 1 \<noteq> None"
    by (simp_all add: pending_db_eq liked_db_eq example_db_def example_user_def get_request_def
        get_user_def conversations_canonical_def)
  have "\<exists>c. filter (between 2 1) (conversations accepted_db) = [c]
          \<and> cv_user1_id c = 1 \<and> cv_user2_id c = 2
          \<and> cv_id c \<in> cvr_id ` set (get_user_conversations accepted_db 2)
          \<and> cv_id c \<in> cvr_id ` set (get_user_conversations accepted_db 1)"
    using accept_creates_one_conversation [OF h, of 7 8]
    by (auto simp: accepted_db_def)
  with h show ?thesis by simp
qed

section \<open>The constraints of the store are kept\<close>

lemma distinct_map_filter_key: "distinct (map f xs) \<Longrightarrow> distinct (map f (filter P xs))"
  by (induction xs) auto

lemma likes_unique_toggle_like:
  assumes "likes_unique s"
  shows "likes_unique (snd (toggle_like s u e t))"
proof (cases "fst (toggle_like s u e t)")
  case True
  then have none: "find_like s u e = None"
    and eq: "reflection_likes (snd (toggle_like s u e t)) = reflection_likes s @
            [\<lparr>l_id = next_id (map l_id (reflection_likes s)), l_user_id = u,
              l_daily_entry_id = e, l_created_at = t\<rparr>]"
    by (auto simp: toggle_like_def split: option.splits if_splits)
  from none have "(u, e) \<notin> (\<lambda>l. (l_user_id l, l_daily_entry_id l)) ` set (reflection_likes s)"
    by (auto simp: find_like_def find_None_iff)
  with assms next_id_notin [of "map l_id (reflection_likes s)"] show ?thesis
    by (simp add: likes_unique_def eq)
next
  case False
  then have "reflection_likes (snd (toggle_like s u e t)) = reflection_likes s
    \<or> reflection_likes (snd (toggle_like s u e t))
        = filter (\<lambda>l. l_id l \<noteq> l_id (the (find_like s u e))) (reflection_likes s)"
    by (auto simp: toggle_like_def split: option.splits if_splits)
  with assms show ?thesis
    by (auto simp: likes_unique_def distinct_map_filter_key)
qed

lemma conversations_append_constraints:
  assumes "conversations_canonical s" "distinct (map cv_id (conversations s))"
    and "conversations s' =
     (case find (\<lambda>c. cv_user1_id c = min a b \<and> cv_user2_id c = max a b) (conversations s) of
        Some existing \<Rightarrow> conversations s
      | None \<Rightarrow> conversations s @
          [\<lparr>cv_id = next_id (map cv_id (conversations s)), cv_user1_id = min a b,
            cv_user2_id = max a b, cv_status = ACTIVE, cv_created_at = t,
            cv_last_message_at = None\<rparr>])"
  shows "conversations_canonical s' \<and> distinct (map cv_id (conversations s'))"
proof (cases "find (\<lambda>c. cv_user1_id c = min a b \<and> cv_user2_id c = max a b) (conversations s)")
  case None
  then have "(min a b, max a b) \<notin> (\<lambda>c. (cv_user1_id c, cv_user2_id c)) ` set (conversations s)"
    by (auto simp: find_None_iff)
  with assms None next_id_notin [of "map cv_id (conversations s)"] show ?thesis
    by (simp add: conversations_canonical_def)
next
  case (Some existing)
  with assms show ?thesis by (simp add: conversations_canonical_def)
qed

lemma respond_conversations_constraints:
  assumes "conversations_canonical s" "distinct (map cv_id (conversations s))"
  shows "conversations_canonical (snd (respond_to_contact_request s k u a t t'))
       \<and> distinct (map cv_id (conversations (snd (respond_to_contact_request s k u a t t'))))"
proof (cases "a \<and> (\<exists>r. get_request s k = Some r \<and> cr_recipient_id r = u)")
  case True
  then obtain r where r: "get_request s k = Some r" "cr_recipient_id r = u" and a: a by auto
  from respond_accept_conversations [OF r, of t t'] a
  show ?thesis by (intro conversations_append_constraints [OF assms]) simp
next
  case False
  then have "conversations (snd (respond_to_contact_request s k u a t t')) = conversations s"
    by (auto simp: respond_to_contact_request_def Let_def split: option.splits)
  with assms show ?thesis by (simp add: conversations_canonical_def)
qed

lemma map_key_update: "(\<And>x. f (g x) = f x) \<Longrightarrow> map f (map g xs) = map f xs"
  by (induction xs) simp_all

lemma send_message_conversations_constraints:
  assumes "conversations_canonical s" "distinct (map cv_id (conversations s))"
  shows "conversations_canonical (snd (send_message s u md t t'))
       \<and> distinct (map cv_id (conversations (snd (send_message s u md t t'))))"
proof -
  let ?g = "\<lambda>c. if cv_id c = mc_conversation_id md then c\<lparr>cv_last_message_at := Some t'\<rparr> else c"
  let ?key = "\<lambda>c. (cv_user1_id c, cv_user2_id c)"
  have ids: "map cv_id (map ?g (conversations s)) = map cv_id (conversations s)"
    by (rule map_key_update) simp
  have keys: "map ?key (map ?g (conversations s)) = map ?key (conversations s)"
    by (rule map_key_update) simp
  have ord: "\<forall>c \<in> set (map ?g (conversations s)). cv_user1_id c \<le> cv_user2_id c"
    using assms(1) by (auto simp: conversations_canonical_def)
  from assms(1) have dk: "distinct (map ?key (conversations s))"
    by (simp add: conversations_canonical_def)
  have d1: "distinct (map cv_id (map ?g (conversations s)))"
    using assms(2) by (simp only: ids)
  have d2: "distinct (map ?key (map ?g (conversations s)))"
    using dk by (simp only: keys)
  have "conversations (snd (send_message s u md t t')) = conversations s
      \<or> conversations (snd (send_message s u md t t')) = map ?g (conversations s)"
    by (simp add: send_message_def Let_def split: option.splits)
  then show ?thesis
  proof
    assume "conversations (snd (send_message s u md t t')) = conversations s"
    with assms show ?thesis by (simp add: conversations_canonical_def)
  next
    assume eq: "conversations (snd (send_message s u md t t')) = map ?g (conversations s)"
    show ?thesis
      unfolding conversations_canonical_def eq using ord d1 d2 by (intro conjI)
  qed
qed

lemma store_constraints_exec: "store_constraints s \<Longrightarrow> store_constraints (exec s c)"
proof (cases c)
  case (ToggleLike u e t)
  assume "store_constraints s"
  with ToggleLike show ?thesis
    by (simp add: store_constraints_def likes_unique_toggle_like toggle_like_tables
        conversations_canonical_def)
next
  case (SendContactRequest u rd t)
  assume "store_constraints s"
  with SendContactRequest show ?thesis
    by (simp add: store_constraints_def likes_unique_def conversations_canonical_def
        send_contact_request_tables)
next
  case (RespondToContactRequest k u a t t')
  assume "store_constraints s"
  with RespondToContactRequest respond_conversations_constraints [of s k u a t t']
  show ?thesis
    by (simp add: store_constraints_def likes_unique_def respond_tables)
next
  case (SendMessage u md t t')
  assume "store_constraints s"
  with SendMessage send_message_conversations_constraints [of s u md t t']
  show ?thesis
    by (simp add: store_constraints_def likes_unique_def send_message_tables)
next
  case (MarkMessagesAsRead k u)
  assume "store_constraints s"
  with MarkMessagesAsRead show ?thesis
    by (simp add: store_constraints_def likes_unique_def conversations_canonical_def
        mark_messages_as_read_tables)
qed

text \<open>
  The constraints that the theorems about likes and conversations assume hold in every
  database that the service's writing calls produce from one without likes and
  conversations.
\<close>

lemma store_constraints_run:
  "store_constraints s \<Longrightarrow> store_constraints (run s commands)"
  unfolding run_def by (induction commands arbitrary: s) (simp_all add: store_constraints_exec)

lemma store_constraints_initial:
  "reflection_likes s = [] \<Longrightarrow> conversations s = [] \<Longrightarrow> store_constraints s"
  by (simp add: store_constraints_def likes_unique_def conversations_canonical_def)

section \<open>The user keys keep resolving\<close>

lemma exec_users: "users (exec s c) = users s"
  by (cases c)
    (simp_all add: toggle_like_tables send_contact_request_tables respond_tables
      send_message_tables mark_messages_as_read_tables)

lemma get_user_exec: "get_user (exec s c) k = get_user s k"
  by (simp add: get_user_def exec_users)

lemma respond_conversations_members:
  assumes "c \<in> set (conversations (snd (respond_to_contact_request s k u a t t')))"
  shows "c \<in> set (conversations s)
       \<or> (\<exists>r \<in> set (contact_requests s).
            {cv_user1_id c, cv_user2_id c} = {cr_sender_id r, u})"
proof (cases "a \<and> (\<exists>r. get_request s k = Some r \<and> cr_recipient_id r = u)")
  case True
  then obtain r where r: "get_request s k = Some r" "cr_recipient_id r = u" and a: a by auto
  from r(1) have rin: "r \<in> set (contact_requests s)"
    by (simp add: get_request_def find_in_set)
  from assms a respond_accept_conversations [OF r, of t t']
  have "c \<in> set (conversations s)
      \<or> (cv_user1_id c = min (cr_sender_id r) u \<and> cv_user2_id c = max (cr_sender_id r) u)"
    by (auto split: option.splits)
  then show ?thesis
  proof
    assume "c \<in> set (conversations s)"
    then show ?thesis ..
  next
    assume "cv_user1_id c = min (cr_sender_id r) u \<and> cv_user2_id c = max (cr_sender_id r) u"
    then have "{cv_user1_id c, cv_user2_id c} = {cr_sender_id r, u}"
      by (auto simp: min_def max_def)
    with rin show ?thesis by blast
  qed
next
  case False
  then have "conversations (snd (respond_to_contact_request s k u a t t')) = conversations s"
    by (auto simp: respond_to_contact_request_def Let_def split: option.splits)
  with assms show ?thesis by simp
qed

lemma send_message_members:
  "m \<in> set (direct_messages (snd (send_message s u md t t'))) \<Longrightarrow>
   m \<in> set (direct_messages s) \<or> dm_sender_id m = u"
  by (auto simp: send_message_def Let_def split: option.splits if_splits)

lemma send_message_conversation_members:
  "c \<in> set (conversations (snd (send_message s u md t t'))) \<Longrightarrow>
   \<exists>c' \<in> set (conversations s). cv_user1_id c = cv_user1_id c' \<and> cv_user2_id c = cv_user2_id c'"
  by (auto simp: send_message_def Let_def split: option.splits if_splits)

lemma mark_messages_as_read_members:
  "m \<in> set (direct_messages (snd (mark_messages_as_read s k u))) \<Longrightarrow>
   \<exists>m' \<in> set (direct_messages s). dm_sender_id m = dm_sender_id m'"
  by (auto simp: mark_messages_as_read_def split: option.splits if_splits)

lemma toggle_like_members:
  "l \<in> set (reflection_likes (snd (toggle_like s u e t))) \<Longrightarrow>
   l \<in> set (reflection_likes s) \<or> l_user_id l = u"
  using toggle_like_likes [of l s u e t] by auto

lemma send_contact_request_members:
  "r \<in> set (contact_requests (snd (send_contact_request s u rd t))) \<Longrightarrow>
   r \<in> set (contact_requests s)
   \<or> (cr_sender_id r = u \<and> (\<exists>entry \<in> set (daily_entries s). e_author_id entry = cr_recipient_id r))"
proof -
  assume "r \<in> set (contact_requests (snd (send_contact_request s u rd t)))"
  from send_contact_request_requests [OF this]
  show ?thesis
    using find_in_set [of "\<lambda>e. e_id e = rc_daily_entry_id rd" "daily_entries s"]
    by (auto simp: get_entry_def)
qed

lemma respond_request_members:
  "r \<in> set (contact_requests (snd (respond_to_contact_request s k u a t t'))) \<Longrightarrow>
   \<exists>r' \<in> set (contact_requests s).
      cr_sender_id r = cr_sender_id r' \<and> cr_recipient_id r = cr_recipient_id r'"
proof -
  assume r: "r \<in> set (contact_requests (snd (respond_to_contact_request s k u a t t')))"
  from respond_requests [of s k u a t t'] obtain g where
    g: "contact_requests (snd (respond_to_contact_request s k u a t t')) = map g (contact_requests s)"
      "\<And>x. cr_sender_id (g x) = cr_sender_id x" "\<And>x. cr_recipient_id (g x) = cr_recipient_id x"
    by auto
  from r g(1) obtain x where "x \<in> set (contact_requests s)" "r = g x" by auto
  with g(2,3) show ?thesis by (intro bexI [of _ x]) simp_all
qed

text \<open>
  When every call is made by a registered user, the user ids stored in likes,
  requests, conversations and messages keep resolving to user rows: the hypotheses
  about user rows in the theorems on conversations and messages hold in every database
  that such calls produce.
\<close>

lemma user_keys_resolve_exec:
  assumes inv: "user_keys_resolve s" and reg: "get_user s (caller c) \<noteq> None"
  shows "user_keys_resolve (exec s c)"
proof (cases c)
  case (ToggleLike u e t)
  with inv reg show ?thesis
    unfolding user_keys_resolve_def
    by (auto simp: get_user_def toggle_like_tables dest!: toggle_like_members)
next
  case (SendContactRequest u rd t)
  with inv reg show ?thesis
    unfolding user_keys_resolve_def
    by (auto simp: get_user_def send_contact_request_tables dest!: send_contact_request_members)
next
  case (RespondToContactRequest k u a t t')
  have conv: "get_user s (cv_user1_id x) \<noteq> None \<and> get_user s (cv_user2_id x) \<noteq> None"
    if "x \<in> set (conversations (snd (respond_to_contact_request s k u a t t')))" for x
  proof -
    from respond_conversations_members [OF that]
    consider "x \<in> set (conversations s)"
      | r where "r \<in> set (contact_requests s)" "{cv_user1_id x, cv_user2_id x} = {cr_sender_id r, u}"
      by auto
    then show ?thesis
    proof cases
      case 1
      with inv show ?thesis by (simp add: user_keys_resolve_def)
    next
      case 2
      from 2(1) inv have "get_user s (cr_sender_id r) \<noteq> None"
        by (simp add: user_keys_resolve_def)
      moreover from reg RespondToContactRequest have "get_user s u \<noteq> None" by simp
      moreover from 2(2) have "cv_user1_id x \<in> {cr_sender_id r, u}" "cv_user2_id x \<in> {cr_sender_id r, u}"
        by auto
      ultimately show ?thesis by auto
    qed
  qed
  have req: "get_user s (cr_sender_id x) \<noteq> None \<and> get_user s (cr_recipient_id x) \<noteq> None"
    if "x \<in> set (contact_requests (snd (respond_to_contact_request s k u a t t')))" for x
    using respond_request_members [OF that] inv by (auto simp: user_keys_resolve_def)
  from inv conv req RespondToContactRequest show ?thesis
    unfolding user_keys_resolve_def
    by (simp add: get_user_def respond_tables)
next
  case (SendMessage u md t t')
  have conv: "get_user s (cv_user1_id x) \<noteq> None \<and> get_user s (cv_user2_id x) \<noteq> None"
    if "x \<in> set (conversations (snd (send_message s u md t t')))" for x
    using send_message_conversation_members [OF that] inv by (auto simp: user_keys_resolve_def)
  have msg: "get_user s (dm_sender_id x) \<noteq> None"
    if "x \<in> set (direct_messages (snd (send_message s u md t t')))" for x
    using send_message_members [OF that] inv reg SendMessage
    by (auto simp: user_keys_resolve_def)
  from inv conv msg SendMessage show ?thesis
    unfolding user_keys_resolve_def
    by (simp add: get_user_def send_message_tables)
next
  case (MarkMessagesAsRead k u)
  have msg: "get_user s (dm_sender_id x) \<noteq> None"
    if "x \<in> set (direct_messages (snd (mark_messages_as_read s k u)))" for x
    using mark_messages_as_read_members [OF that] inv by (auto simp: user_keys_resolve_def)
  from inv msg MarkMessagesAsRead show ?thesis
    unfolding user_keys_resolve_def
    by (simp add: get_user_def mark_messages_as_read_tables)
qed

lemma user_keys_resolve_run:
  assumes "user_keys_resolve s" and "\<forall>c \<in> set commands. get_user s (caller c) \<noteq> None"
  shows "user_keys_resolve (run s commands)"
  using assms unfolding run_def
proof (induction commands arbitrary: s)
  case Nil
  then show ?case by simp
next
  case (Cons c cs)
  have "user_keys_resolve (exec s c)"
    using Cons.prems by (intro user_keys_resolve_exec) simp_all
  moreover have "\<forall>c' \<in> set cs. get_user (exec s c) (caller c') \<noteq> None"
    using Cons.prems(2) by (simp add: get_user_exec)
  ultimately show ?case using Cons.IH by simp
qed

end
